theory Spec2Isabelle
  imports
    Complex_Main
    "HOL-Library.Word"
    "HOL-Library.Signed_Division"
    "HOL-Library.Monad_Syntax"
begin

unbundle bit_operations_syntax

section \<open>Integer timeline of timestep.c\<close>

text \<open>
  Ticks (\<open>int\<close> and \<open>unsigned int\<close> in the C source) are 32-bit words: \<open>+\<close> wraps,
  \<open><\<close> and \<open>\<le>\<close> compare unsigned, \<open>sint\<close> reads the two's complement value.
  Bin numbers and particle types are small C \<open>int\<close>s that never come near the
  word size; they are HOL integers.  C \<open>double\<close> and \<open>MyFloat\<close> values are
  idealised as real numbers.

  The idealisation leaves out what is specific to floating point: rounding, overflow
  to an infinity, and NaN.  A quotient by 0 is 0 in HOL, and \<open>0 powr y\<close> is 0, where
  the C arithmetic yields an infinity or a NaN; this concerns \<open>minentropy\<close> in the
  entropy floor when \<open>EOMDensity * a3inv\<close> is 0 and the Courant step of
  \<open>get_timestep_dloga\<close> when \<open>MaxSignalVel\<close> is 0.  The general statements of
  section Claims about real-valued fields are frame statements and comparisons that a
  monotone rounding preserves, and none of them depends on the value of a quotient
  by 0; the concrete inputs are chosen so that their arithmetic is exact in binary
  floating point or far from a rounding boundary.

  A computation whose C behaviour is undefined, namely an array access outside the
  declared bounds or a shift by a count outside \<open>0..30\<close>, yields \<open>None\<close>.
\<close>

type_synonym tick = "32 word"

text \<open>
  Modelled from the spec: the compile-time constants \<open>TIMEBINS\<close> and \<open>TIMEBASE\<close> come
  from allvars.h, which is not among the sources.  Section 3 of the specification
  gives \<open>TIMEBASE = 2^T\<close> with \<open>T\<close> typically 29 and bins in \<open>[0, TIMEBINS-1]\<close>.
\<close>

definition TIMEBINS :: nat where
  "TIMEBINS = 29"

definition TIMEBASE :: tick where
  "TIMEBASE = push_bit TIMEBINS 1"

text \<open>\<open>get_kick_ti\<close>: both arguments are \<open>int\<close>, so \<open>step/2\<close> truncates towards zero.\<close>

definition get_kick_ti :: "tick \<Rightarrow> tick \<Rightarrow> tick" where
  "get_kick_ti start step = start + word_of_int (sint step sdiv 2)"

text \<open>The loop \<open>while(dti) { bin++; dti >>= 1; }\<close> of \<open>get_timestep_bin\<close>.\<close>

function bin_loop :: "tick \<Rightarrow> int \<Rightarrow> int" where
  "bin_loop dti bin = (if dti \<noteq> 0 then bin_loop (drop_bit 1 dti) (bin + 1) else bin)"
  by pat_completeness auto
termination
proof (relation "measure (\<lambda>(dti, bin). unat dti)")
  show "wf (measure (\<lambda>(dti, bin). unat dti))" by simp
next
  fix dti :: tick and bin :: int
  assume "dti \<noteq> 0"
  then have "0 < unat dti" by (simp add: unat_gt_0)
  then have "unat dti div 2 < unat dti" by simp
  then show "((drop_bit 1 dti, bin + 1), (dti, bin)) \<in> measure (\<lambda>(dti, bin). unat dti)"
    by (simp add: unat_drop_bit_eq drop_bit_eq_div unat_div)
qed

declare bin_loop.simps [simp del]

definition get_timestep_bin :: "tick \<Rightarrow> int" where
  "get_timestep_bin dti =
     (if dti = 0 then 0
      else if dti = 1 then - 1
      else bin_loop dti (- 1))"

text \<open>
  The expression \<open>bin ? (1 << bin) : 0\<close>.  Shifting the \<open>int\<close> constant 1 by a
  negative count or by 31 and more is undefined in C.
\<close>

definition dti_of_bin :: "int \<Rightarrow> tick option" where
  "dti_of_bin bin =
     (if bin = 0 then Some 0
      else if 0 < bin \<and> bin < 31 then Some (push_bit (nat bin) 1)
      else None)"

section \<open>Particles\<close>

type_synonym vec3 = "real \<times> real \<times> real"

text \<open>
  The fields of \<open>P[i]\<close> that timestep.c reads or writes, together with the fields of
  the particle's own SPH slot \<open>SPHP(i)\<close> and black hole slot \<open>BHP(i)\<close>.
\<close>

record particle =
  Type :: int
  TimeBin :: int
  Ti_begstep :: tick
  Vel :: vec3
  GravAccel :: vec3
  GravPM :: vec3
  Hsml :: real
  Entropy :: real
  DtEntropy :: real
  HydroAccel :: vec3
  EOMDensity :: real
  MaxSignalVel :: real
  BH_Mass :: real
  BH_Mdot :: real
  BH_TimeBinLimit :: int

text \<open>\<open>get_short_kick_time(i)\<close>, applied to the particle \<open>P[i]\<close>.\<close>

definition get_short_kick_time :: "particle \<Rightarrow> tick option" where
  "get_short_kick_time p =
     do {
       dti \<leftarrow> dti_of_bin (TimeBin p);
       Some (get_kick_ti (Ti_begstep p) dti)
     }"

text \<open>
  Modelled from the spec: \<open>round_down_power_of_two\<close> is defined in a file that is
  not among the sources.  Section 4.2 of the specification gives
  \<open>dti \<leftarrow> 2^floor(log2(dti))\<close>; the argument is a C \<open>int\<close>, and for an argument
  that is not positive, where the logarithm does not exist, the result is taken as 0.
\<close>

fun floor_log2 :: "nat \<Rightarrow> nat" where
  "floor_log2 n = (if n < 2 then 0 else Suc (floor_log2 (n div 2)))"

declare floor_log2.simps [simp del]

definition round_down_power_of_two :: "tick \<Rightarrow> tick" where
  "round_down_power_of_two dti =
     (if sint dti \<le> 0 then 0 else push_bit (floor_log2 (nat (sint dti))) 1)"

section \<open>Configuration and collaborators\<close>

text \<open>
  The fields of the global \<open>All\<close> that timestep.c reads, the compile-time toggles
  \<open>ADAPTIVE_GRAVSOFT_FORGAS\<close> and \<open>BLACK_HOLES\<close>, and the functions of the integer
  timeline and the cosmology tables that it calls and that are defined elsewhere
  (\<open>dti_from_dloga\<close>, \<open>dloga_from_dti\<close>, \<open>get_dloga_for_bin\<close>, the two kick
  factors).  The macro \<open>GAMMA_MINUS1\<close> is \<open>GAMMA - 1\<close>.
\<close>

record env =
  TreeGravOn :: bool
  ForceEqualTimesteps :: bool
  MinSizeTimestep :: real
  ErrTolIntAccuracy :: real
  CourantFac :: real
  Time :: real
  cf_a :: real
  cf_a2inv :: real
  cf_a3inv :: real
  cf_hubble :: real
  SofteningTable :: "int \<Rightarrow> real"
  MaxGasVel :: real
  MinEgySpec :: real
  GAMMA :: real
  ADAPTIVE_GRAVSOFT_FORGAS :: bool
  BLACK_HOLES :: bool
  dti_from_dloga :: "real \<Rightarrow> tick"
  dloga_from_dti :: "tick \<Rightarrow> real"
  get_dloga_for_bin :: "int \<Rightarrow> real"
  get_gravkick_factor :: "tick \<Rightarrow> tick \<Rightarrow> real"
  get_hydrokick_factor :: "tick \<Rightarrow> tick \<Rightarrow> real"

definition GAMMA_MINUS1 :: "env \<Rightarrow> real" where
  "GAMMA_MINUS1 env = GAMMA env - 1"

section \<open>Timestep selection\<close>

text \<open>
  \<open>pow(x, y)\<close> is \<open>x powr y\<close>.  For a gas particle with \<open>MaxSignalVel = 0\<close> the
  Courant step \<open>dt_courant\<close> is a quotient by 0: an infinity or a NaN in C, 0 here.
\<close>

definition get_timestep_dloga :: "env \<Rightarrow> particle \<Rightarrow> real" where
  "get_timestep_dloga env p =
     (let (gx, gy, gz) = GravAccel p;
          (mx, my, mz) = GravPM p;
          (hx, hy, hz) = HydroAccel p;
          ax = cf_a2inv env * gx;
          ay = cf_a2inv env * gy;
          az = cf_a2inv env * gz;
          ax = ax + cf_a2inv env * mx;
          ay = ay + cf_a2inv env * my;
          az = az + cf_a2inv env * mz;
          fac2 = 1 / (Time env powr (3 * GAMMA env - 2));
          ax = (if Type p = 0 then ax + fac2 * hx else ax);
          ay = (if Type p = 0 then ay + fac2 * hy else ay);
          az = (if Type p = 0 then az + fac2 * hz else az);
          ac = sqrt (ax * ax + ay * ay + az * az);
          ac = (if ac = 0 then 1 / 10 ^ 30 else ac);
          dt = sqrt (2 * ErrTolIntAccuracy env * cf_a env * SofteningTable env (Type p) / ac);
          dt = (if ADAPTIVE_GRAVSOFT_FORGAS env \<and> Type p = 0
                then sqrt (2 * ErrTolIntAccuracy env * cf_a env * Hsml p / 2.8 / ac)
                else dt);
          dt = (if Type p = 0
                then (let fac3 = Time env powr (3 * (1 - GAMMA env) / 2);
                          dt_courant = 2 * CourantFac env * Time env * Hsml p
                                         / (fac3 * MaxSignalVel p)
                      in if dt_courant < dt then dt_courant else dt)
                else dt);
          dt = (if BLACK_HOLES env \<and> Type p = 5
                then (let dt = (if BH_Mdot p > 0 \<and> BH_Mass p > 0
                                then (let dt_accr = 0.25 * BH_Mass p / BH_Mdot p
                                      in if dt_accr < dt then dt_accr else dt)
                                else dt)
                      in if BH_TimeBinLimit p > 0
                         then (let dt_limiter = get_dloga_for_bin env (BH_TimeBinLimit p)
                                                  / cf_hubble env
                               in if dt_limiter < dt then dt_limiter else dt)
                         else dt)
                else dt)
      in dt * cf_hubble env)"

text \<open>
  \<open>get_timestep_ti\<close>: \<open>dti\<close> is an \<open>int\<close> and \<open>dti_max\<close> an \<open>unsigned int\<close>, so
  \<open>dti > dti_max\<close> compares unsigned.  The diagnostic messages are left out.
\<close>

definition get_timestep_ti :: "env \<Rightarrow> particle \<Rightarrow> tick \<Rightarrow> tick" where
  "get_timestep_ti env p dti_max =
     (if dti_max = 0 then 0
      else if \<not> TreeGravOn env then dti_max
      else (let dloga = get_timestep_dloga env p;
                dloga = (if dloga < MinSizeTimestep env then MinSizeTimestep env else dloga);
                dti = dti_from_dloga env dloga;
                dti = (if dti > dti_max then dti_max else dti)
            in dti))"

section \<open>Kicks\<close>

text \<open>The loops \<open>for(j = 0; j < 3; j++) v[j] += a[j] * k\<close> and \<open>v[j] *= k\<close>.\<close>

fun kick_vec :: "vec3 \<Rightarrow> vec3 \<Rightarrow> real \<Rightarrow> vec3" where
  "kick_vec (vx, vy, vz) (ax, ay, az) k = (vx + ax * k, vy + ay * k, vz + az * k)"

fun scale_vec :: "vec3 \<Rightarrow> real \<Rightarrow> vec3" where
  "scale_vec (vx, vy, vz) k = (vx * k, vy * k, vz * k)"

fun sum_squares :: "vec3 \<Rightarrow> real" where
  "sum_squares (vx, vy, vz) = 0 + vx * vx + vy * vy + vz * vz"

text \<open>
  The gas part of \<open>do_the_short_range_kick\<close> is a sequence of four blocks, each of
  which reads and updates the particle: the hard limit on the gas velocity, the
  entropy kick, the entropy floor, and the bound on the entropy rate of the next
  step.  The quotients \<open>minentropy\<close> and \<open>-0.5 * Entropy / dt_entr_next\<close> are the
  exact ones; the C code stores their roundings.
\<close>

definition limit_gas_velocity :: "env \<Rightarrow> particle \<Rightarrow> particle" where
  "limit_gas_velocity env p =
     (let velfac = sqrt (cf_a3inv env);
          vv = sqrt (sum_squares (Vel p))
      in if vv > MaxGasVel env * velfac
         then p\<lparr>Vel := scale_vec (Vel p) (MaxGasVel env * velfac / vv)\<rparr>
         else p)"

definition kick_entropy :: "real \<Rightarrow> particle \<Rightarrow> particle" where
  "kick_entropy dt_entr p =
     (if DtEntropy p * dt_entr < - 0.5 * Entropy p
      then p\<lparr>Entropy := Entropy p * 0.5\<rparr>
      else p\<lparr>Entropy := Entropy p + DtEntropy p * dt_entr\<rparr>)"

definition entropy_floor :: "env \<Rightarrow> particle \<Rightarrow> particle" where
  "entropy_floor env p =
     (if MinEgySpec env \<noteq> 0
      then (let minentropy = MinEgySpec env * GAMMA_MINUS1 env
                  / ((EOMDensity p * cf_a3inv env) powr GAMMA_MINUS1 env)
            in if Entropy p < minentropy
               then p\<lparr>Entropy := minentropy, DtEntropy := 0\<rparr>
               else p)
      else p)"

definition bound_next_entropy_rate :: "env \<Rightarrow> particle \<Rightarrow> particle" where
  "bound_next_entropy_rate env p =
     (let dt_entr_next = get_dloga_for_bin env (TimeBin p) / 2
      in if DtEntropy p * dt_entr_next < - 0.5 * Entropy p
         then p\<lparr>DtEntropy := - 0.5 * Entropy p / dt_entr_next\<rparr>
         else p)"

definition do_the_short_range_kick :: "env \<Rightarrow> particle \<Rightarrow> tick \<Rightarrow> tick \<Rightarrow> particle" where
  "do_the_short_range_kick env p tistart tiend =
     (let Fgravkick = get_gravkick_factor env tistart tiend;
          p = p\<lparr>Vel := kick_vec (Vel p) (GravAccel p) Fgravkick\<rparr>
      in if Type p = 0
         then (let Fhydrokick = get_hydrokick_factor env tistart tiend;
                   dt_entr = dloga_from_dti env (tiend - tistart);
                   p = p\<lparr>Vel := kick_vec (Vel p) (HydroAccel p) Fhydrokick\<rparr>;
                   p = limit_gas_velocity env p;
                   p = kick_entropy dt_entr p;
                   p = entropy_floor env p
               in bound_next_entropy_rate env p)
         else p)"

text \<open>\<open>do_the_long_range_kick\<close> over the particles \<open>P[0..NumPart)\<close>.\<close>

definition do_the_long_range_kick :: "env \<Rightarrow> tick \<Rightarrow> tick \<Rightarrow> particle list \<Rightarrow> particle list" where
  "do_the_long_range_kick env tistart tiend ps =
     (let Fgravkick = get_gravkick_factor env tistart tiend
      in map (\<lambda>p. p\<lparr>Vel := kick_vec (Vel p) (GravPM p) Fgravkick\<rparr>) ps)"

section \<open>Bin registry and global state\<close>

text \<open>Array reads and \<open>atomic_fetch_and_add\<close>, checked against the array bounds.\<close>

definition array_get :: "'a list \<Rightarrow> int \<Rightarrow> 'a option" where
  "array_get xs i = (if 0 \<le> i \<and> i < int (length xs) then Some (xs ! nat i) else None)"

definition array_add :: "int list \<Rightarrow> int \<Rightarrow> int \<Rightarrow> int list option" where
  "array_add xs i v =
     (if 0 \<le> i \<and> i < int (length xs) then Some (xs[nat i := xs ! nat i + v]) else None)"

definition array2_add :: "int list list \<Rightarrow> int \<Rightarrow> int \<Rightarrow> int \<Rightarrow> int list list option" where
  "array2_add xss t i v =
     do {
       row \<leftarrow> array_get xss t;
       row' \<leftarrow> array_add row i v;
       Some (xss[nat t := row'])
     }"

text \<open>
  The particle table \<open>P\<close> holds the \<open>NumPart\<close> local particles and \<open>ActiveParticle\<close>
  its first \<open>NumActiveParticle\<close> entries.
\<close>

record state =
  P :: "particle list"
  ActiveParticle :: "int list"
  TimeBinCount :: "int list"
  TimeBinCountType :: "int list list"
  TimeBinActive :: "int list"
  PM_Ti_step :: tick
  PM_Ti_start :: tick

definition NumPart :: "state \<Rightarrow> nat" where
  "NumPart st = length (P st)"

section \<open>advance_and_find_timesteps: the loop over the active particles\<close>

text \<open>The upward guard \<open>while(TimeBinActive[bin] == 0 && bin > binold) bin--;\<close>.\<close>

function upward_loop :: "int list \<Rightarrow> int \<Rightarrow> int \<Rightarrow> int option" where
  "upward_loop act binold bin =
     (case array_get act bin of
        None \<Rightarrow> None
      | Some a \<Rightarrow> if a = 0 \<and> bin > binold then upward_loop act binold (bin - 1) else Some bin)"
  by pat_completeness auto
termination
  by (relation "measure (\<lambda>(act, binold, bin). nat (bin - binold))") auto

declare upward_loop.simps [simp del]

text \<open>
  The block \<open>if(bin > binold) { while ...; dti = bin ? (1 << bin) : 0; }\<close>: it
  yields the values of \<open>bin\<close> and \<open>dti\<close> after the block.
\<close>

definition upward_guard :: "int list \<Rightarrow> int \<Rightarrow> int \<Rightarrow> tick \<Rightarrow> (int \<times> tick) option" where
  "upward_guard act binold bin dti =
     (if bin > binold
      then do {
             bin \<leftarrow> upward_loop act binold bin;
             dti \<leftarrow> dti_of_bin bin;
             Some (bin, dti)
           }
      else Some (bin, dti))"

text \<open>
  The block \<open>if(bin != binold) { ... }\<close> that moves the particle between time bins:
  it yields \<open>TimeBinCount\<close>, \<open>TimeBinCountType\<close> and the particle after the block.
\<close>

definition move_between_bins ::
  "int list \<Rightarrow> int list list \<Rightarrow> int \<Rightarrow> int \<Rightarrow> particle
     \<Rightarrow> (int list \<times> int list list \<times> particle) option" where
  "move_between_bins cnt cntT binold bin p =
     (if bin \<noteq> binold
      then do {
             cnt \<leftarrow> array_add cnt binold (- 1);
             cnt \<leftarrow> array_add cnt bin 1;
             cntT \<leftarrow> array2_add cntT (Type p) binold (- 1);
             cntT \<leftarrow> array2_add cntT (Type p) bin 1;
             Some (cnt, cntT, p\<lparr>TimeBin := bin\<rparr>)
           }
      else Some (cnt, cntT, p))"

text \<open>
  What one pass through the loop body leaves behind: the particle, the bin counters,
  whether \<open>badstepsizecount\<close> was incremented, and the two ticks handed to
  \<open>do_the_short_range_kick\<close>.
\<close>

record kick_step =
  ks_particle :: particle
  ks_TimeBinCount :: "int list"
  ks_TimeBinCountType :: "int list list"
  ks_badstep :: bool
  ks_tistart :: tick
  ks_tiend :: tick

text \<open>
  The body of the second loop of \<open>advance_and_find_timesteps\<close> for the particle
  \<open>P[i]\<close>, from the rounding of \<open>dti\<close> on; \<open>dti0\<close> is the value that the loop has
  assigned to \<open>dti\<close> before (\<open>ti_min_glob\<close> or \<open>get_timestep_ti\<close>).
\<close>

definition advance_particle ::
  "env \<Rightarrow> int list \<Rightarrow> bool \<Rightarrow> tick \<Rightarrow> int list \<Rightarrow> int list list \<Rightarrow> particle \<Rightarrow> kick_step option" where
  "advance_particle env act do_half_kick dti0 cnt cntT p =
     do {
       let dti = round_down_power_of_two dti0;
       let bin = get_timestep_bin dti;
       let bad = (bin < 1);
       let binold = TimeBin p;
       (bin, dti) \<leftarrow> upward_guard act binold bin dti;
       (cnt, cntT, p) \<leftarrow> move_between_bins cnt cntT binold bin p;
       dti_old \<leftarrow> dti_of_bin binold;
       let tistart = get_kick_ti (Ti_begstep p) dti_old;
       let tiend = get_kick_ti (Ti_begstep p + dti_old) dti;
       let tiend = (if do_half_kick then Ti_begstep p + dti_old else tiend);
       let p = p\<lparr>Ti_begstep := Ti_begstep p + dti_old\<rparr>;
       Some \<lparr>ks_particle = do_the_short_range_kick env p tistart tiend,
             ks_TimeBinCount = cnt,
             ks_TimeBinCountType = cntT,
             ks_badstep = bad,
             ks_tistart = tistart,
             ks_tiend = tiend\<rparr>
     }"

text \<open>
  The second loop of \<open>advance_and_find_timesteps\<close>, over the entries of
  \<open>ActiveParticle\<close> in order, carrying the state and \<open>badstepsizecount\<close>.
\<close>

fun advance_loop ::
  "env \<Rightarrow> bool \<Rightarrow> tick \<Rightarrow> tick \<Rightarrow> int list \<Rightarrow> state \<times> int \<Rightarrow> (state \<times> int) option" where
  "advance_loop env do_half_kick ti_min_glob new_PM_Ti_step [] sb = Some sb"
| "advance_loop env do_half_kick ti_min_glob new_PM_Ti_step (i # rest) (st, badstepsizecount) =
     do {
       p \<leftarrow> array_get (P st) i;
       let dti = (if ForceEqualTimesteps env then ti_min_glob
                  else get_timestep_ti env p new_PM_Ti_step);
       r \<leftarrow> advance_particle env (TimeBinActive st) do_half_kick dti
              (TimeBinCount st) (TimeBinCountType st) p;
       advance_loop env do_half_kick ti_min_glob new_PM_Ti_step rest
         (st\<lparr>P := (P st)[nat i := ks_particle r],
             TimeBinCount := ks_TimeBinCount r,
             TimeBinCountType := ks_TimeBinCountType r\<rparr>,
          badstepsizecount + (if ks_badstep r then 1 else 0))
     }"

section \<open>apply_half_kick\<close>

fun half_kick_loop :: "env \<Rightarrow> int list \<Rightarrow> particle list \<Rightarrow> particle list option" where
  "half_kick_loop env [] ps = Some ps"
| "half_kick_loop env (i # rest) ps =
     do {
       p \<leftarrow> array_get ps i;
       dti \<leftarrow> dti_of_bin (TimeBin p);
       let tistart = Ti_begstep p;
       let tiend = get_kick_ti (Ti_begstep p) dti;
       half_kick_loop env rest (ps[nat i := do_the_short_range_kick env p tistart tiend])
     }"

definition apply_half_kick :: "env \<Rightarrow> state \<Rightarrow> state option" where
  "apply_half_kick env st =
     do {
       ps \<leftarrow> half_kick_loop env (ActiveParticle st) (P st);
       let tistart = PM_Ti_start st;
       let tiend = get_kick_ti (PM_Ti_start st) (PM_Ti_step st);
       Some (st\<lparr>P := do_the_long_range_kick env tistart tiend ps\<rparr>)
     }"

text \<open>
  The two kicks of \<open>apply_half_kick\<close> in the words of the specification: the
  short-range kick of a particle over \<open>[Ti_begstep, get_kick_ti(Ti_begstep, 2^TimeBin))\<close>
  and the long-range kick of a particle over
  \<open>[PM_start, get_kick_ti(PM_start, PM_step))\<close>.
\<close>

definition half_step_kick :: "env \<Rightarrow> particle \<Rightarrow> particle" where
  "half_step_kick env p =
     do_the_short_range_kick env p (Ti_begstep p)
       (get_kick_ti (Ti_begstep p) (2 ^ nat (TimeBin p)))"

definition pm_half_kick :: "env \<Rightarrow> state \<Rightarrow> particle \<Rightarrow> particle" where
  "pm_half_kick env st p =
     p\<lparr>Vel := kick_vec (Vel p) (GravPM p)
               (get_gravkick_factor env (PM_Ti_start st)
                  (get_kick_ti (PM_Ti_start st) (PM_Ti_step st)))\<rparr>"

text \<open>
  Every entry of \<open>ActiveParticle\<close> is the index of a local particle whose bin lies in
  \<open>[0, 30]\<close>.
\<close>

definition active_in_range :: "state \<Rightarrow> bool" where
  "active_in_range st \<longleftrightarrow>
     list_all (\<lambda>i. 0 \<le> i \<and> i < int (NumPart st)
                 \<and> 0 \<le> TimeBin (P st ! nat i) \<and> TimeBin (P st ! nat i) \<le> 30)
       (ActiveParticle st)"

section \<open>rebuild_activelist\<close>

fun rebuild_loop ::
  "int list \<Rightarrow> particle list \<Rightarrow> nat \<Rightarrow> int list \<times> int list \<times> int list list
     \<Rightarrow> (int list \<times> int list \<times> int list list) option" where
  "rebuild_loop act [] i acc = Some acc"
| "rebuild_loop act (p # ps) i (active, cnt, cntT) =
     do {
       let bin = TimeBin p;
       a \<leftarrow> array_get act bin;
       let active = (if a \<noteq> 0 then active @ [int i] else active);
       cnt \<leftarrow> array_add cnt bin 1;
       cntT \<leftarrow> array2_add cntT (Type p) bin 1;
       rebuild_loop act ps (Suc i) (active, cnt, cntT)
     }"

definition rebuild_activelist :: "state \<Rightarrow> state option" where
  "rebuild_activelist st =
     do {
       (active, cnt, cntT) \<leftarrow>
         rebuild_loop (TimeBinActive st) (P st) 0
           ([], replicate TIMEBINS 0, replicate 6 (replicate TIMEBINS 0));
       Some (st\<lparr>ActiveParticle := active, TimeBinCount := cnt, TimeBinCountType := cntT\<rparr>)
     }"

section \<open>find_next_kick\<close>

text \<open>The loop \<open>for(n = 1; n < TIMEBINS; n++)\<close> of \<open>find_next_kick\<close>.\<close>

function next_kick_loop :: "int list \<Rightarrow> tick \<Rightarrow> nat \<Rightarrow> tick \<Rightarrow> tick option" where
  "next_kick_loop cnt Ti_Current n ti_next_kick =
     (if n < TIMEBINS
      then (case array_get cnt (int n) of
              None \<Rightarrow> None
            | Some c \<Rightarrow>
                if c = 0 then next_kick_loop cnt Ti_Current (n + 1) ti_next_kick
                else (let dt_bin = push_bit n 1;
                          ti_next_for_bin = (Ti_Current div dt_bin) * dt_bin + dt_bin
                      in next_kick_loop cnt Ti_Current (n + 1)
                           (if ti_next_for_bin < ti_next_kick then ti_next_for_bin
                            else ti_next_kick)))
      else Some ti_next_kick)"
  by pat_completeness auto
termination
  by (relation "measure (\<lambda>(cnt, Ti_Current, n, ti_next_kick). TIMEBINS - n)") auto

declare next_kick_loop.simps [simp del]

text \<open>
  \<open>find_next_kick\<close> up to the value of \<open>ti_next_kick\<close> that enters the reduction
  over the ranks.
\<close>

definition find_next_kick :: "int list \<Rightarrow> tick \<Rightarrow> tick option" where
  "find_next_kick cnt Ti_Current =
     do {
       c0 \<leftarrow> array_get cnt 0;
       let ti_next_kick = (if c0 \<noteq> 0 then Ti_Current else TIMEBASE);
       let snap = Ti_Current AND NOT (TIMEBASE - 1);
       let Ti_Current = Ti_Current AND (TIMEBASE - 1);
       ti_next_kick \<leftarrow> next_kick_loop cnt Ti_Current 1 ti_next_kick;
       Some (ti_next_kick + snap)
     }"

section \<open>Array shapes, valid particles and the bin accounting invariant\<close>

text \<open>
  The declared shapes \<open>int TimeBinCount[TIMEBINS]\<close> and
  \<open>int TimeBinCountType[6][TIMEBINS]\<close>.
\<close>

definition registry_shape :: "int list \<Rightarrow> int list list \<Rightarrow> bool" where
  "registry_shape cnt cntT \<longleftrightarrow>
     length cnt = TIMEBINS \<and> length cntT = 6 \<and> (\<forall>t<6. length (cntT ! t) = TIMEBINS)"

text \<open>
  Bin accounting (section 8 of the specification) for \<open>n\<close> particles:
  \<open>\<Sum>b TimeBinCount[b] = n\<close> and \<open>\<Sum>type TimeBinCountType[type][b] = TimeBinCount[b]\<close>
  for every bin \<open>b\<close>.
\<close>

definition bin_accounting :: "nat \<Rightarrow> int list \<Rightarrow> int list list \<Rightarrow> bool" where
  "bin_accounting n cnt cntT \<longleftrightarrow>
     (\<Sum>b<TIMEBINS. cnt ! b) = int n
     \<and> (\<forall>b<TIMEBINS. (\<Sum>t<6. cntT ! t ! b) = cnt ! b)"

text \<open>A particle of the data model: its bin is in \<open>[0, TIMEBINS-1]\<close>, its type in \<open>{0..5}\<close>.\<close>

definition valid_particle :: "particle \<Rightarrow> bool" where
  "valid_particle p \<longleftrightarrow>
     0 \<le> TimeBin p \<and> TimeBin p < int TIMEBINS \<and> 0 \<le> Type p \<and> Type p < 6"

section \<open>Concrete inputs\<close>

text \<open>A halo particle in bin 3 whose current step starts at tick 8 and ends at tick 16.\<close>

definition halo_particle :: particle where
  "halo_particle =
     \<lparr>Type = 1, TimeBin = 3, Ti_begstep = 8,
      Vel = (0, 0, 0), GravAccel = (0, 0, 0), GravPM = (0, 0, 0), Hsml = 0,
      Entropy = 0, DtEntropy = 0, HydroAccel = (0, 0, 0), EOMDensity = 0,
      MaxSignalVel = 0, BH_Mass = 0, BH_Mdot = 0, BH_TimeBinLimit = 0\<rparr>"

text \<open>
  A configuration with scale factor 1 and Hubble rate 1, in which the \<open>TIMEBASE\<close>
  ticks of the timeline span one unit of \<open>log a\<close>: the conversions between ticks and
  \<open>dloga\<close> are the linear map of section 4.1 of the specification, truncated to an
  integer where a tick count is returned.
\<close>

definition unit_env :: env where
  "unit_env =
     \<lparr>TreeGravOn = True, ForceEqualTimesteps = False, MinSizeTimestep = 0,
      ErrTolIntAccuracy = 1 / 2, CourantFac = 3 / 20, Time = 1,
      cf_a = 1, cf_a2inv = 1, cf_a3inv = 1, cf_hubble = 1,
      SofteningTable = (\<lambda>t. 1 / 100), MaxGasVel = 300000, MinEgySpec = 0,
      GAMMA = 5 / 3, ADAPTIVE_GRAVSOFT_FORGAS = False, BLACK_HOLES = False,
      dti_from_dloga = (\<lambda>dloga. word_of_int \<lfloor>dloga * 2 ^ 29\<rfloor>),
      dloga_from_dti = (\<lambda>dti. real (unat dti) / 2 ^ 29),
      get_dloga_for_bin = (\<lambda>bin. 2 ^ nat bin / 2 ^ 29),
      get_gravkick_factor = (\<lambda>t0 t1. (real (unat t1) - real (unat t0)) / 2 ^ 29),
      get_hydrokick_factor = (\<lambda>t0 t1. (real (unat t1) - real (unat t0)) / 2 ^ 29)\<rparr>"

text \<open>
  The bad-step scenario of section 8 of the specification: a particle with
  \<open>GravAccel = (1e30, 0, 0)\<close>.
\<close>

definition fast_particle :: particle where
  "fast_particle = halo_particle\<lparr>GravAccel := (10 ^ 30, 0, 0)\<rparr>"



text \<open>
  The bin counters of a rank right after a restart: all of its particles, here one,
  are in bin 0.
\<close>

definition restart_counts :: "int list" where
  "restart_counts = 1 # replicate (TIMEBINS - 1) 0"

text \<open>
  The upward-guard scenario of section 8 of the specification at tick 16: only the
  bins 0 to 4 are active.  The rank holds the halo particle of bin 3, which is at the
  end of its step, and a second halo particle in bin 4.
\<close>

definition bins_0_to_4_active :: "int list" where
  "bins_0_to_4_active = replicate 5 1 @ replicate (TIMEBINS - 5) 0"

definition two_halo_state :: state where
  "two_halo_state =
     \<lparr>P = [halo_particle, halo_particle\<lparr>TimeBin := 4, Ti_begstep := 0\<rparr>],
      ActiveParticle = [], TimeBinCount = [], TimeBinCountType = [],
      TimeBinActive = bins_0_to_4_active, PM_Ti_step = 1024, PM_Ti_start = 0\<rparr>"

definition rebuilt_state :: state where
  "rebuilt_state = the (rebuild_activelist two_halo_state)"

text \<open>
  The counters of that state after the two decrements
  \<open>TimeBinCount[binold]--\<close> and \<open>TimeBinCountType[Type][binold]--\<close> for the halo
  particle of bin 3.
\<close>

definition bad_step_counts :: "int list" where
  "bad_step_counts =
     the (array_add (TimeBinCount rebuilt_state) (TimeBin halo_particle) (- 1))"

definition bad_step_type_counts :: "int list list" where
  "bad_step_type_counts =
     the (array2_add (TimeBinCountType rebuilt_state) (Type halo_particle)
            (TimeBin halo_particle) (- 1))"

text \<open>The loop body for the halo particle of bin 3 when its step asks for 64 ticks, bin 6.\<close>

definition guard_example :: "kick_step option" where
  "guard_example =
     advance_particle unit_env (TimeBinActive rebuilt_state) False 64
       (TimeBinCount rebuilt_state) (TimeBinCountType rebuilt_state) halo_particle"


definition shrink_example :: "kick_step option" where
  "shrink_example =
     advance_particle unit_env (TimeBinActive rebuilt_state) False 4
       (TimeBinCount rebuilt_state) (TimeBinCountType rebuilt_state) halo_particle"

text \<open>The whole loop with \<open>ForceEqualTimesteps\<close> and a global minimum of 64 ticks.\<close>

definition equal_step_env :: env where
  "equal_step_env = unit_env\<lparr>ForceEqualTimesteps := True\<rparr>"

definition advanced_state :: "state \<times> int" where
  "advanced_state =
     the (advance_loop equal_step_env False 64 1024 (ActiveParticle rebuilt_state)
            (rebuilt_state, 0))"

text \<open>The same state after \<open>apply_half_kick\<close>.\<close>

definition half_kicked_state :: state where
  "half_kicked_state = the (apply_half_kick unit_env rebuilt_state)"

section \<open>Facts about the integer timeline\<close>

lemma sint_pow2:
  assumes "k < 31"
  shows "sint ((2::tick) ^ k) = 2 ^ k"
proof -
  have "(2::int) ^ k < 2 ^ 31"
    using assms power_strict_increasing [of k 31 "2::int"] by simp
  moreover have "- ((2::int) ^ 31) \<le> 2 ^ k"
    by (rule order_trans [of _ 0]) simp_all
  ultimately have "signed_take_bit 31 ((2::int) ^ k) = 2 ^ k"
    by (rule_tac signed_take_bit_int_eq_self)
  moreover have "sint ((2::tick) ^ k) = signed_take_bit 31 ((2::int) ^ k)"
    using sint_sbintrunc' [where 'a = 32, of "2 ^ k"] by (simp add: word_of_int_2p)
  ultimately show ?thesis by simp
qed

lemma get_kick_ti_pow2:
  assumes "1 \<le> k" and "k < 31"
  shows "get_kick_ti start (2 ^ k) = start + 2 ^ (k - 1)"
proof -
  obtain j where k: "k = Suc j" using assms(1) by (cases k) auto
  have "sint ((2::tick) ^ k) sdiv 2 = 2 ^ j"
    using assms(2) by (simp add: sint_pow2 signed_divide_int_def k sgn_if del: power_Suc) simp
  then show ?thesis by (simp add: get_kick_ti_def k word_of_int_2p del: power_Suc)
qed

lemma get_kick_ti_zero: "get_kick_ti start 0 = start"
  by (simp add: get_kick_ti_def)

lemma get_kick_ti_one: "get_kick_ti start 1 = start"
  by (simp add: get_kick_ti_def signed_divide_int_def)

lemma bin_loop_pow2: "b < 32 \<Longrightarrow> bin_loop (2 ^ b) k = k + int b + 1"
proof (induction b arbitrary: k)
  case 0
  show ?case by (simp add: bin_loop.simps [of 1] bin_loop.simps [of 0])
next
  case (Suc b)
  have nz: "(2::tick) ^ Suc b \<noteq> 0"
    using Suc.prems by (simp del: power_Suc)
  have db: "drop_bit 1 ((2::tick) ^ Suc b) = 2 ^ b"
    using Suc.prems by (simp add: drop_bit_exp_eq del: power_Suc)
  have "bin_loop (2 ^ Suc b) k = bin_loop (2 ^ b) (k + 1)"
    using nz db by (subst bin_loop.simps) (simp del: power_Suc)
  then show ?case using Suc by simp
qed

lemma pow2_neq_one: "1 \<le> b \<Longrightarrow> b < 32 \<Longrightarrow> (2::tick) ^ b \<noteq> 1"
proof
  assume b: "1 \<le> b" "b < 32" and eq: "(2::tick) ^ b = 1"
  have "even ((2::tick) ^ b)" using b(1) by (cases b) simp_all
  with eq show False by simp
qed

lemma get_timestep_bin_exp: "1 \<le> b \<Longrightarrow> b < 32 \<Longrightarrow> get_timestep_bin (2 ^ b) = int b"
  by (simp add: get_timestep_bin_def bin_loop_pow2 pow2_neq_one)

section \<open>Facts about the short-range kick\<close>

lemma limit_gas_velocity_fields [simp]:
  "Type (limit_gas_velocity env p) = Type p"
  "TimeBin (limit_gas_velocity env p) = TimeBin p"
  "Ti_begstep (limit_gas_velocity env p) = Ti_begstep p"
  "Entropy (limit_gas_velocity env p) = Entropy p"
  "DtEntropy (limit_gas_velocity env p) = DtEntropy p"
  by (simp_all add: limit_gas_velocity_def Let_def)

lemma kick_entropy_fields [simp]:
  "Type (kick_entropy dt p) = Type p"
  "TimeBin (kick_entropy dt p) = TimeBin p"
  "Ti_begstep (kick_entropy dt p) = Ti_begstep p"
  "DtEntropy (kick_entropy dt p) = DtEntropy p"
  by (simp_all add: kick_entropy_def)

lemma entropy_floor_fields [simp]:
  "Type (entropy_floor env p) = Type p"
  "TimeBin (entropy_floor env p) = TimeBin p"
  "Ti_begstep (entropy_floor env p) = Ti_begstep p"
  by (simp_all add: entropy_floor_def Let_def)

lemma bound_next_entropy_rate_fields [simp]:
  "Type (bound_next_entropy_rate env p) = Type p"
  "TimeBin (bound_next_entropy_rate env p) = TimeBin p"
  "Ti_begstep (bound_next_entropy_rate env p) = Ti_begstep p"
  "Entropy (bound_next_entropy_rate env p) = Entropy p"
  by (simp_all add: bound_next_entropy_rate_def Let_def)

lemma do_the_short_range_kick_fields [simp]:
  "Type (do_the_short_range_kick env p t0 t1) = Type p"
  "TimeBin (do_the_short_range_kick env p t0 t1) = TimeBin p"
  "Ti_begstep (do_the_short_range_kick env p t0 t1) = Ti_begstep p"
  by (simp_all add: do_the_short_range_kick_def Let_def)






section \<open>Facts about the loop body of advance_and_find_timesteps\<close>



lemma upward_loop_Some:
  assumes "upward_loop act binold bin = Some b" and "binold < bin"
  shows "binold \<le> b \<and> b \<le> bin \<and> 0 \<le> b \<and> b < int (length act)
     \<and> (b = binold \<or> act ! nat b \<noteq> 0)
     \<and> (\<forall>b'. b < b' \<and> b' \<le> bin \<longrightarrow> act ! nat b' = 0)"
  using assms
proof (induction act binold bin rule: upward_loop.induct)
  case (1 act binold bin)
  from "1.prems"(1) obtain a where a: "array_get act bin = Some a"
    by (subst (asm) upward_loop.simps) (auto split: option.splits)
  then have rng: "0 \<le> bin" "bin < int (length act)" and av: "a = act ! nat bin"
    by (auto simp: array_get_def split: if_splits)
  show ?case
  proof (cases "a = 0 \<and> bin > binold")
    case True
    then have rec: "upward_loop act binold (bin - 1) = Some b"
      using "1.prems"(1) a by (subst (asm) upward_loop.simps) simp
    show ?thesis
    proof (cases "binold < bin - 1")
      case True
      with 1 rec a \<open>a = 0 \<and> bin > binold\<close>
      have ih: "binold \<le> b \<and> b \<le> bin - 1 \<and> 0 \<le> b \<and> b < int (length act)
         \<and> (b = binold \<or> act ! nat b \<noteq> 0)
         \<and> (\<forall>b'. b < b' \<and> b' \<le> bin - 1 \<longrightarrow> act ! nat b' = 0)" by blast
      have "\<And>b'. b < b' \<Longrightarrow> b' \<le> bin \<Longrightarrow> act ! nat b' = 0"
      proof -
        fix b' assume "b < b'" "b' \<le> bin"
        then consider "b' \<le> bin - 1" | "b' = bin" by linarith
        then show "act ! nat b' = 0"
          using ih \<open>b < b'\<close> \<open>a = 0 \<and> bin > binold\<close> av by cases auto
      qed
      with ih show ?thesis by auto
    next
      case False
      with \<open>a = 0 \<and> bin > binold\<close> have e: "bin - 1 = binold" by simp
      from rec obtain a' where a': "array_get act (bin - 1) = Some a'"
        by (subst (asm) upward_loop.simps) (auto split: option.splits)
      have bb: "b = binold"
        using rec a' e by (subst (asm) upward_loop.simps) simp
      have "\<And>b'. b < b' \<Longrightarrow> b' \<le> bin \<Longrightarrow> act ! nat b' = 0"
      proof -
        fix b' assume "b < b'" "b' \<le> bin"
        with bb e have "b' = bin" by linarith
        then show "act ! nat b' = 0" using av True by simp
      qed
      moreover from a' e have "0 \<le> binold"
        by (auto simp: array_get_def split: if_splits)
      ultimately show ?thesis using bb e rng by auto
    qed
  next
    case False
    then have "b = bin" using "1.prems"(1) a by (subst (asm) upward_loop.simps) auto
    with False "1.prems"(2) rng av show ?thesis by auto
  qed
qed



lemma advance_particle_Some:
  assumes "advance_particle env act half dti0 cnt cntT p = Some r"
  shows "\<exists>b dti p' dti_old.
     upward_guard act (TimeBin p) (get_timestep_bin (round_down_power_of_two dti0))
        (round_down_power_of_two dti0) = Some (b, dti)
   \<and> move_between_bins cnt cntT (TimeBin p) b p
        = Some (ks_TimeBinCount r, ks_TimeBinCountType r, p')
   \<and> dti_of_bin (TimeBin p) = Some dti_old
   \<and> ks_tistart r = get_kick_ti (Ti_begstep p') dti_old
   \<and> ks_tiend r = (if half then Ti_begstep p' + dti_old
                    else get_kick_ti (Ti_begstep p' + dti_old) dti)
   \<and> ks_particle r = do_the_short_range_kick env
        (p'\<lparr>Ti_begstep := Ti_begstep p' + dti_old\<rparr>) (ks_tistart r) (ks_tiend r)
   \<and> ks_badstep r = (get_timestep_bin (round_down_power_of_two dti0) < 1)"
proof -
  from assms obtain b dti where g:
    "upward_guard act (TimeBin p) (get_timestep_bin (round_down_power_of_two dti0))
        (round_down_power_of_two dti0) = Some (b, dti)"
    by (cases "upward_guard act (TimeBin p) (get_timestep_bin (round_down_power_of_two dti0))
        (round_down_power_of_two dti0)") (auto simp: advance_particle_def Let_def)
  from assms g obtain c t p' where m:
    "move_between_bins cnt cntT (TimeBin p) b p = Some (c, t, p')"
    by (cases "move_between_bins cnt cntT (TimeBin p) b p")
       (auto simp: advance_particle_def Let_def)
  from assms g m obtain dti_old where o: "dti_of_bin (TimeBin p) = Some dti_old"
    by (cases "dti_of_bin (TimeBin p)") (auto simp: advance_particle_def Let_def)
  from assms have r: "r = \<lparr>ks_particle = do_the_short_range_kick env
        (p'\<lparr>Ti_begstep := Ti_begstep p' + dti_old\<rparr>) (get_kick_ti (Ti_begstep p') dti_old)
          (if half then Ti_begstep p' + dti_old
                    else get_kick_ti (Ti_begstep p' + dti_old) dti),
             ks_TimeBinCount = c,
             ks_TimeBinCountType = t,
             ks_badstep = (get_timestep_bin (round_down_power_of_two dti0) < 1),
             ks_tistart = get_kick_ti (Ti_begstep p') dti_old,
             ks_tiend = (if half then Ti_begstep p' + dti_old
                    else get_kick_ti (Ti_begstep p' + dti_old) dti)\<rparr>"
    by (simp add: advance_particle_def Let_def g m o)
  show ?thesis using g m o by (simp add: r)
qed

lemma array_add_Some:
  assumes "array_add xs i v = Some ys"
  shows "0 \<le> i" and "i < int (length xs)" and "length ys = length xs"
    and "\<And>b. b < length xs \<Longrightarrow> ys ! b = xs ! b + (if int b = i then v else 0)"
  using assms by (auto simp: array_add_def nth_list_update split: if_splits)

lemma array2_add_Some:
  assumes "array2_add xss t i v = Some yss"
  shows "0 \<le> t" and "t < int (length xss)" and "0 \<le> i" and "i < int (length (xss ! nat t))"
    and "length yss = length xss"
    and "\<And>s. s < length xss \<Longrightarrow> length (yss ! s) = length (xss ! s)"
    and "\<And>s b. s < length xss \<Longrightarrow> b < length (xss ! s) \<Longrightarrow>
           yss ! s ! b = xss ! s ! b + (if int s = t \<and> int b = i then v else 0)"
  using assms
  by (auto simp: array2_add_def array_get_def array_add_def nth_list_update
      split: if_splits bind_splits)

lemma upward_guard_Some:
  assumes "upward_guard act binold bin dti = Some (b, d)"
  shows "if bin > binold then upward_loop act binold bin = Some b \<and> dti_of_bin b = Some d
         else b = bin \<and> d = dti"
  using assms by (auto simp: upward_guard_def split: if_splits bind_splits)

lemma move_between_bins_Some:
  assumes "move_between_bins cnt cntT (TimeBin p) bin p = Some (cnt', cntT', p')"
  shows "p' = p\<lparr>TimeBin := bin\<rparr>"
    and "bin \<noteq> TimeBin p \<Longrightarrow> 0 \<le> bin \<and> bin < int (length cnt)
           \<and> 0 \<le> TimeBin p \<and> TimeBin p < int (length cnt)"
  using assms
  by (auto simp: move_between_bins_def array_add_def split: if_splits bind_splits)

lemma dti_of_bin_Some:
  assumes "dti_of_bin b = Some d"
  shows "0 \<le> b" and "b \<le> 30" and "d = (if b = 0 then 0 else 2 ^ nat b)"
    and "get_kick_ti start d = get_kick_ti start (2 ^ nat b)"
  using assms
  by (auto simp: dti_of_bin_def push_bit_eq_mult get_kick_ti_zero get_kick_ti_one
      split: if_splits)


lemma advance_particle_new_bin:
  assumes "advance_particle env act half dti0 cnt cntT p = Some r"
  shows "upward_guard act (TimeBin p) (get_timestep_bin (round_down_power_of_two dti0))
           (round_down_power_of_two dti0)
         = Some (TimeBin (ks_particle r),
                 if get_timestep_bin (round_down_power_of_two dti0) > TimeBin p
                 then the (dti_of_bin (TimeBin (ks_particle r)))
                 else round_down_power_of_two dti0)"
proof -
  from advance_particle_Some [OF assms] obtain b dti p' dti_old where
    g: "upward_guard act (TimeBin p) (get_timestep_bin (round_down_power_of_two dti0))
        (round_down_power_of_two dti0) = Some (b, dti)"
    and m: "move_between_bins cnt cntT (TimeBin p) b p
        = Some (ks_TimeBinCount r, ks_TimeBinCountType r, p')"
    and k: "ks_particle r = do_the_short_range_kick env
        (p'\<lparr>Ti_begstep := Ti_begstep p' + dti_old\<rparr>) (ks_tistart r) (ks_tiend r)"
    by blast
  have "TimeBin (ks_particle r) = b"
    using k move_between_bins_Some(1) [OF m] by simp
  then show ?thesis using g upward_guard_Some [OF g] by (auto split: if_splits)
qed


section \<open>Facts about the bin counters\<close>

lemma sum_delta_int:
  assumes "0 \<le> i" and "i < int n"
  shows "(\<Sum>b<n. if int b = i then v else (0::int)) = v"
proof -
  have "(\<Sum>b<n. if int b = i then v else (0::int)) = (\<Sum>b\<in>{..<n}. if b = nat i then v else 0)"
    using assms by (intro sum.cong) auto
  also have "\<dots> = v" using assms by (simp add: sum.delta nat_less_iff)
  finally show ?thesis .
qed

lemma count_step:
  assumes sh: "registry_shape cnt cntT"
    and c: "array_add cnt i v = Some cnt'"
    and t: "array2_add cntT ty i v = Some cntT'"
  shows "registry_shape cnt' cntT'"
    and "(\<Sum>b<TIMEBINS. cnt' ! b) = (\<Sum>b<TIMEBINS. cnt ! b) + v"
    and "\<And>b. b < TIMEBINS \<Longrightarrow>
           (\<Sum>s<6. cntT' ! s ! b) - cnt' ! b = (\<Sum>s<6. cntT ! s ! b) - cnt ! b"
proof -
  note C = array_add_Some [OF c]
  note T = array2_add_Some [OF t]
  from sh have len: "length cnt = TIMEBINS" "length cntT = 6"
    and rows: "\<And>s. s < 6 \<Longrightarrow> length (cntT ! s) = TIMEBINS"
    by (auto simp: registry_shape_def)
  show "registry_shape cnt' cntT'"
    using C(3) T(5) T(6) len rows by (simp add: registry_shape_def)
  have cb: "\<And>b. b < TIMEBINS \<Longrightarrow> cnt' ! b = cnt ! b + (if int b = i then v else 0)"
    using C(4) len by simp
  have "(\<Sum>b<TIMEBINS. cnt' ! b) = (\<Sum>b<TIMEBINS. cnt ! b + (if int b = i then v else 0))"
    by (intro sum.cong) (simp_all add: cb)
  also have "\<dots> = (\<Sum>b<TIMEBINS. cnt ! b) + (\<Sum>b<TIMEBINS. if int b = i then v else 0)"
    by (simp add: sum.distrib)
  also have "(\<Sum>b<TIMEBINS. if int b = i then v else 0) = v"
    using C(1,2) len by (intro sum_delta_int) simp_all
  finally show "(\<Sum>b<TIMEBINS. cnt' ! b) = (\<Sum>b<TIMEBINS. cnt ! b) + v" .
  fix b assume b: "b < TIMEBINS"
  have tb: "\<And>s. s < 6 \<Longrightarrow>
      cntT' ! s ! b = cntT ! s ! b + (if int s = ty then (if int b = i then v else 0) else 0)"
    using T(7) len rows b by simp
  have "(\<Sum>s<6. cntT' ! s ! b)
        = (\<Sum>s<6. cntT ! s ! b + (if int s = ty then (if int b = i then v else 0) else 0))"
    by (intro sum.cong) (simp_all add: tb)
  also have "\<dots> = (\<Sum>s<6. cntT ! s ! b)
        + (\<Sum>s<6. if int s = ty then (if int b = i then v else 0) else 0)"
    by (simp add: sum.distrib)
  also have "(\<Sum>s<6. if int s = ty then (if int b = i then v else 0) else 0)
        = (if int b = i then v else 0)"
    using T(1,2) len by (intro sum_delta_int) simp_all
  finally show "(\<Sum>s<6. cntT' ! s ! b) - cnt' ! b = (\<Sum>s<6. cntT ! s ! b) - cnt ! b"
    using cb [OF b] by simp
qed

lemma move_between_bins_accounting:
  assumes sh: "registry_shape cnt cntT" and acc: "bin_accounting n cnt cntT"
    and m: "move_between_bins cnt cntT binold bin p = Some (cnt', cntT', p')"
  shows "registry_shape cnt' cntT' \<and> bin_accounting n cnt' cntT'"
proof (cases "bin = binold")
  case True
  with m sh acc show ?thesis by (simp add: move_between_bins_def)
next
  case False
  with m obtain c1 t1 where
    c1: "array_add cnt binold (- 1) = Some c1" and c2: "array_add c1 bin 1 = Some cnt'"
    and t1: "array2_add cntT (Type p) binold (- 1) = Some t1"
    and t2: "array2_add t1 (Type p) bin 1 = Some cntT'"
    by (auto simp: move_between_bins_def split: bind_splits)
  note s1 = count_step [OF sh c1 t1]
  note s2 = count_step [OF s1(1) c2 t2]
  have "(\<Sum>b<TIMEBINS. cnt' ! b) = int n"
    using s1(2) s2(2) acc by (simp add: bin_accounting_def)
  moreover have "\<And>b. b < TIMEBINS \<Longrightarrow> (\<Sum>s<6. cntT' ! s ! b) = cnt' ! b"
  proof -
    fix b assume b: "b < TIMEBINS"
    from s1(3) [OF b] s2(3) [OF b] acc b show "(\<Sum>s<6. cntT' ! s ! b) = cnt' ! b"
      by (simp add: bin_accounting_def)
  qed
  ultimately show ?thesis using s2(1) by (simp add: bin_accounting_def)
qed

lemma advance_particle_accounting:
  assumes "registry_shape cnt cntT" and "bin_accounting n cnt cntT"
    and "advance_particle env act half dti0 cnt cntT p = Some r"
  shows "registry_shape (ks_TimeBinCount r) (ks_TimeBinCountType r)
       \<and> bin_accounting n (ks_TimeBinCount r) (ks_TimeBinCountType r)"
proof -
  from advance_particle_Some [OF assms(3)] obtain b p' where
    "move_between_bins cnt cntT (TimeBin p) b p
        = Some (ks_TimeBinCount r, ks_TimeBinCountType r, p')"
    by blast
  from move_between_bins_accounting [OF assms(1,2) this] show ?thesis .
qed

lemma advance_loop_accounting:
  assumes "advance_loop env half tmin npm active (st, bad) = Some (st', bad')"
    and "registry_shape (TimeBinCount st) (TimeBinCountType st)"
    and "bin_accounting (NumPart st) (TimeBinCount st) (TimeBinCountType st)"
  shows "registry_shape (TimeBinCount st') (TimeBinCountType st')
       \<and> bin_accounting (NumPart st') (TimeBinCount st') (TimeBinCountType st')
       \<and> NumPart st' = NumPart st"
  using assms
proof (induction active arbitrary: st bad)
  case Nil
  then show ?case by simp
next
  case (Cons i rest)
  from Cons.prems(1) obtain p r where
    p: "array_get (P st) i = Some p"
    and r: "advance_particle env (TimeBinActive st) half
              (if ForceEqualTimesteps env then tmin else get_timestep_ti env p npm)
              (TimeBinCount st) (TimeBinCountType st) p = Some r"
    and rest: "advance_loop env half tmin npm rest
         (st\<lparr>P := (P st)[nat i := ks_particle r],
             TimeBinCount := ks_TimeBinCount r,
             TimeBinCountType := ks_TimeBinCountType r\<rparr>,
          bad + (if ks_badstep r then 1 else 0)) = Some (st', bad')"
    by (auto simp: Let_def split: bind_splits)
  note a = advance_particle_accounting [OF Cons.prems(2,3) r]
  have "registry_shape (TimeBinCount st') (TimeBinCountType st')
       \<and> bin_accounting (NumPart st') (TimeBinCount st') (TimeBinCountType st')
       \<and> NumPart st' = NumPart (st\<lparr>P := (P st)[nat i := ks_particle r],
             TimeBinCount := ks_TimeBinCount r,
             TimeBinCountType := ks_TimeBinCountType r\<rparr>)"
    using a by (intro Cons.IH [OF rest]) (simp_all add: NumPart_def)
  then show ?case by (auto simp: NumPart_def)
qed

lemma array_add_defined:
  "0 \<le> i \<Longrightarrow> i < int (length xs) \<Longrightarrow> \<exists>ys. array_add xs i v = Some ys"
  by (simp add: array_add_def)

lemma array2_add_defined:
  assumes "registry_shape cnt cntT" and "0 \<le> t" and "t < 6" and "0 \<le> i" and "i < int TIMEBINS"
  shows "\<exists>yss. array2_add cntT t i v = Some yss"
proof -
  from assms have "array_get cntT t = Some (cntT ! nat t)"
    by (simp add: array_get_def registry_shape_def)
  moreover from assms have "length (cntT ! nat t) = TIMEBINS"
    by (simp add: registry_shape_def nat_less_iff)
  ultimately show ?thesis using assms(4,5)
    by (simp add: array2_add_def array_add_def)
qed

lemma zero_registry:
  "registry_shape (replicate TIMEBINS 0) (replicate 6 (replicate TIMEBINS 0))"
  "bin_accounting 0 (replicate TIMEBINS 0) (replicate 6 (replicate TIMEBINS 0))"
  by (simp_all add: registry_shape_def bin_accounting_def)



lemma rebuild_loop_defined:
  assumes "\<forall>p\<in>set ps. valid_particle p" and "length act = TIMEBINS"
    and "registry_shape cnt cntT"
  shows "\<exists>res. rebuild_loop act ps i (active, cnt, cntT) = Some res"
  using assms
proof (induction ps arbitrary: i active cnt cntT)
  case Nil
  then show ?case by simp
next
  case (Cons p ps)
  from Cons.prems(1) have vp: "0 \<le> TimeBin p" "TimeBin p < int TIMEBINS" "0 \<le> Type p" "Type p < 6"
    by (simp_all add: valid_particle_def)
  have a: "array_get act (TimeBin p) = Some (act ! nat (TimeBin p))"
    using vp Cons.prems(2) by (simp add: array_get_def)
  from Cons.prems(3) have "length cnt = TIMEBINS" by (simp add: registry_shape_def)
  with vp obtain c1 where c1: "array_add cnt (TimeBin p) 1 = Some c1"
    using array_add_defined [of "TimeBin p" cnt 1] by auto
  from array2_add_defined [OF Cons.prems(3) vp(3,4,1,2)]
  obtain t1 where t1: "array2_add cntT (Type p) (TimeBin p) 1 = Some t1" by blast
  have sh: "registry_shape c1 t1" by (rule count_step(1) [OF Cons.prems(3) c1 t1])
  from Cons.prems(1) have "\<forall>p\<in>set ps. valid_particle p" by simp
  from Cons.IH [OF this Cons.prems(2) sh]
  show ?case by (simp add: a c1 t1 Let_def)
qed


lemma rebuild_activelist_defined:
  assumes "\<forall>p\<in>set (P st). valid_particle p" and "length (TimeBinActive st) = TIMEBINS"
  shows "\<exists>st'. rebuild_activelist st = Some st'"
proof -
  from rebuild_loop_defined [OF assms zero_registry(1)]
  obtain res where "rebuild_loop (TimeBinActive st) (P st) 0
           ([], replicate TIMEBINS 0, replicate 6 (replicate TIMEBINS 0)) = Some res" by blast
  then show ?thesis by (cases res) (simp add: rebuild_activelist_def)
qed




lemma advance_particle_one_tick_undefined:
  assumes "round_down_power_of_two dti0 = 1" and "0 \<le> TimeBin p"
  shows "advance_particle env act half dti0 cnt cntT p = None"
proof -
  have b: "get_timestep_bin 1 = - 1"
    by (simp add: get_timestep_bin_def)
  have g: "upward_guard act (TimeBin p) (- 1) 1 = Some (- 1, 1)"
    using assms(2) by (simp add: upward_guard_def)
  have m: "move_between_bins cnt cntT (TimeBin p) (- 1) p = None"
    using assms(2) by (simp add: move_between_bins_def array_add_def split: bind_splits)
  show ?thesis by (simp add: advance_particle_def Let_def b assms(1) g m)
qed

section \<open>Facts about the active list\<close>

lemma rebuild_loop_active:
  assumes "rebuild_loop act ps i (active, cnt, cntT) = Some (active', cnt', cntT')"
    and "distinct active" and "\<forall>x\<in>set active. 0 \<le> x \<and> x < int i"
  shows "distinct active' \<and> (\<forall>x\<in>set active'. 0 \<le> x \<and> x < int (i + length ps))"
  using assms
proof (induction ps arbitrary: i active cnt cntT)
  case Nil
  then show ?case by simp
next
  case (Cons p ps)
  from Cons.prems(1) obtain a :: int and c1 t1 where
    rest: "rebuild_loop act ps (Suc i)
             (if a \<noteq> 0 then active @ [int i] else active, c1, t1) = Some (active', cnt', cntT')"
    by (auto simp: Let_def split: bind_splits)
  let ?active1 = "if a \<noteq> 0 then active @ [int i] else active"
  have d: "distinct ?active1" using Cons.prems(2,3) by auto
  have b: "\<forall>x\<in>set ?active1. 0 \<le> x \<and> x < int (Suc i)" using Cons.prems(3) by auto
  from Cons.IH [OF rest d b] show ?case by simp
qed

lemma rebuild_activelist_active:
  assumes "rebuild_activelist st = Some st'" and "\<forall>p\<in>set (P st). valid_particle p"
  shows "distinct (ActiveParticle st') \<and> active_in_range st'"
proof -
  from assms(1) obtain active cnt cntT where
    l: "rebuild_loop (TimeBinActive st) (P st) 0
           ([], replicate TIMEBINS 0, replicate 6 (replicate TIMEBINS 0)) = Some (active, cnt, cntT)"
    and st': "st' = st\<lparr>ActiveParticle := active, TimeBinCount := cnt, TimeBinCountType := cntT\<rparr>"
    by (auto simp: rebuild_activelist_def split: bind_splits)
  from rebuild_loop_active [OF l] have d: "distinct active"
    and r: "\<forall>x\<in>set active. 0 \<le> x \<and> x < int (length (P st))" by simp_all
  have "\<forall>x\<in>set active. 0 \<le> TimeBin (P st ! nat x) \<and> TimeBin (P st ! nat x) \<le> 30"
  proof
    fix x assume "x \<in> set active"
    with r have "nat x < length (P st)" by auto
    then have "P st ! nat x \<in> set (P st)" by simp
    with assms(2) have "valid_particle (P st ! nat x)" by blast
    then show "0 \<le> TimeBin (P st ! nat x) \<and> TimeBin (P st ! nat x) \<le> 30"
      by (simp add: valid_particle_def TIMEBINS_def)
  qed
  with d r show ?thesis
    by (simp add: st' active_in_range_def list_all_iff NumPart_def)
qed

section \<open>Facts about apply_half_kick\<close>

lemma half_kick_loop_frame:
  assumes "half_kick_loop env active ps = Some ps'"
  shows "length ps' = length ps \<and> map Ti_begstep ps' = map Ti_begstep ps
       \<and> map TimeBin ps' = map TimeBin ps"
  using assms
proof (induction active arbitrary: ps)
  case Nil
  then show ?case by simp
next
  case (Cons i rest)
  from Cons.prems obtain p dti where
    p: "array_get ps i = Some p"
    and rest: "half_kick_loop env rest
        (ps[nat i := do_the_short_range_kick env p (Ti_begstep p) (get_kick_ti (Ti_begstep p) dti)])
        = Some ps'"
    by (auto simp: Let_def split: bind_splits)
  from p have i: "nat i < length ps" and pv: "p = ps ! nat i"
    by (auto simp: array_get_def split: if_splits)
  from Cons.IH [OF rest] i pv show ?case
    by (simp add: map_update list_update_same_conv)
qed

lemma half_kick_loop_kicks:
  assumes "half_kick_loop env active ps = Some ps'" and "distinct active"
    and "j < length ps"
  shows "ps' ! j = (if int j \<in> set active then half_step_kick env (ps ! j) else ps ! j)"
  using assms
proof (induction active arbitrary: ps)
  case Nil
  then show ?case by simp
next
  case (Cons i rest)
  from Cons.prems(1) obtain p dti where
    p: "array_get ps i = Some p"
    and d: "dti_of_bin (TimeBin p) = Some dti"
    and rest: "half_kick_loop env rest
        (ps[nat i := do_the_short_range_kick env p (Ti_begstep p) (get_kick_ti (Ti_begstep p) dti)])
        = Some ps'"
    by (auto simp: Let_def split: bind_splits)
  from p have i: "0 \<le> i" "nat i < length ps" and pv: "p = ps ! nat i"
    by (auto simp: array_get_def split: if_splits)
  have k: "do_the_short_range_kick env p (Ti_begstep p) (get_kick_ti (Ti_begstep p) dti)
           = half_step_kick env p"
    using dti_of_bin_Some(4) [OF d] by (simp add: half_step_kick_def)
  let ?ps1 = "ps[nat i := half_step_kick env p]"
  from Cons.prems(2) have dr: "distinct rest" and ni: "i \<notin> set rest" by simp_all
  from Cons.prems(3) have j1: "j < length ?ps1" by simp
  from rest k have "half_kick_loop env rest ?ps1 = Some ps'" by simp
  from Cons.IH [OF this dr j1]
  have ih: "ps' ! j = (if int j \<in> set rest then half_step_kick env (?ps1 ! j) else ?ps1 ! j)" .
  show ?case
  proof (cases "int j = i")
    case True
    then have "j = nat i" by simp
    with ih ni True i pv show ?thesis by simp
  next
    case False
    then have "j \<noteq> nat i" using i by auto
    with ih False show ?thesis by simp
  qed
qed

lemma half_kick_loop_defined:
  assumes "\<forall>i\<in>set active. 0 \<le> i \<and> i < int (length ps)
             \<and> 0 \<le> TimeBin (ps ! nat i) \<and> TimeBin (ps ! nat i) \<le> 30"
  shows "\<exists>ps'. half_kick_loop env active ps = Some ps'"
  using assms
proof (induction active arbitrary: ps)
  case Nil
  then show ?case by simp
next
  case (Cons i rest)
  from Cons.prems have i: "0 \<le> i" "i < int (length ps)"
    and b: "0 \<le> TimeBin (ps ! nat i)" "TimeBin (ps ! nat i) \<le> 30" by simp_all
  have p: "array_get ps i = Some (ps ! nat i)" using i by (simp add: array_get_def)
  from b have "dti_of_bin (TimeBin (ps ! nat i)) \<noteq> None"
    by (simp add: dti_of_bin_def)
  then obtain dti where d: "dti_of_bin (TimeBin (ps ! nat i)) = Some dti" by blast
  let ?ps1 = "ps[nat i := do_the_short_range_kick env (ps ! nat i) (Ti_begstep (ps ! nat i))
                 (get_kick_ti (Ti_begstep (ps ! nat i)) dti)]"
  have "\<forall>k\<in>set rest. 0 \<le> k \<and> k < int (length ?ps1)
             \<and> 0 \<le> TimeBin (?ps1 ! nat k) \<and> TimeBin (?ps1 ! nat k) \<le> 30"
  proof
    fix k assume "k \<in> set rest"
    with Cons.prems have "0 \<le> k \<and> k < int (length ps)
             \<and> 0 \<le> TimeBin (ps ! nat k) \<and> TimeBin (ps ! nat k) \<le> 30" by simp
    then show "0 \<le> k \<and> k < int (length ?ps1)
             \<and> 0 \<le> TimeBin (?ps1 ! nat k) \<and> TimeBin (?ps1 ! nat k) \<le> 30"
      using b i by (cases "nat k = nat i") (simp_all add: nth_list_update)
  qed
  from Cons.IH [OF this] show ?case by (simp add: p d Let_def)
qed

lemma do_the_long_range_kick_frame:
  "length (do_the_long_range_kick env t0 t1 ps) = length ps"
  "map Ti_begstep (do_the_long_range_kick env t0 t1 ps) = map Ti_begstep ps"
  "map TimeBin (do_the_long_range_kick env t0 t1 ps) = map TimeBin ps"
  by (simp_all add: do_the_long_range_kick_def Let_def)

section \<open>Facts about find_next_kick\<close>

lemma next_kick_loop_empty:
  assumes "\<forall>k. n \<le> k \<and> k < TIMEBINS \<longrightarrow> array_get cnt (int k) = Some 0"
  shows "next_kick_loop cnt T n t = Some t"
  using assms
proof (induction cnt T n t rule: next_kick_loop.induct)
  case (1 cnt T n t)
  show ?case
  proof (cases "n < TIMEBINS")
    case True
    with "1.prems" have g: "array_get cnt (int n) = Some 0" by simp
    have "next_kick_loop cnt T (n + 1) t = Some t"
      using True g "1.prems" by (intro "1.IH"(1)) auto
    then show ?thesis using True g by (subst next_kick_loop.simps) simp
  next
    case False
    then show ?thesis by (subst next_kick_loop.simps) simp
  qed
qed

lemma restart_counts_get:
  "array_get restart_counts 0 = Some 1"
  "1 \<le> k \<Longrightarrow> k < TIMEBINS \<Longrightarrow> array_get restart_counts (int k) = Some 0"
  by (auto simp: restart_counts_def array_get_def TIMEBINS_def nth_Cons')

lemma next_candidate_later:
  fixes T :: tick
  assumes n: "n < TIMEBINS" and T: "T < TIMEBASE"
  shows "\<not> ((T div push_bit n 1) * push_bit n 1 + push_bit n 1 < T)"
proof -
  let ?d = "2 ^ n :: tick"
  have n32: "n < 32" and n29: "n < 29" using n by (simp_all add: TIMEBINS_def)
  have "(0::tick) < 2 ^ n" using n32 by (simp add: word_gt_0)
  then have "uint ?d = 2 ^ n" by (rule uint_2p)
  then have ud: "unat ?d = 2 ^ n"
    by (simp add: unat_eq_nat_uint nat_power_eq)
  have uT: "unat T < 536870912"
    using T by (simp add: TIMEBASE_def TIMEBINS_def word_less_nat_alt)
  have "(2::nat) ^ n \<le> 2 ^ 28"
    using n29 by (intro power_increasing) simp_all
  then have p: "(2::nat) ^ n \<le> 268435456" by simp
  have q: "unat T div 2 ^ n * 2 ^ n \<le> unat T" by simp
  have u1: "unat (T div ?d) = unat T div 2 ^ n" by (simp add: unat_div ud)
  have "unat T div 2 ^ n * 2 ^ n < 4294967296" using q uT by linarith
  then have "unat (T div ?d) * unat ?d < 2 ^ LENGTH(32)" by (simp add: u1 ud)
  then have "unat ((T div ?d) * ?d) = unat (T div ?d) * unat ?d"
    by (rule unat_mult_lem [THEN iffD1])
  then have u2: "unat ((T div ?d) * ?d) = unat T div 2 ^ n * 2 ^ n"
    by (simp only: u1 ud)
  have "unat T div 2 ^ n * 2 ^ n + 2 ^ n < 4294967296" using q uT p by linarith
  then have "unat ((T div ?d) * ?d) + unat ?d < 2 ^ LENGTH(32)" by (simp add: u2 ud)
  then have "unat ((T div ?d) * ?d + ?d) = unat ((T div ?d) * ?d) + unat ?d"
    by (rule unat_add_lem [THEN iffD1])
  then have u3: "unat ((T div ?d) * ?d + ?d) = unat T div 2 ^ n * 2 ^ n + 2 ^ n"
    by (simp only: u2 ud)
  have "unat T mod 2 ^ n < 2 ^ n" by simp
  then have "unat T < unat T div 2 ^ n * 2 ^ n + 2 ^ n"
    using div_mult_mod_eq [of "unat T" "2 ^ n"] by linarith
  then have "\<not> ((T div ?d) * ?d + ?d < T)"
    by (simp only: word_less_nat_alt u3)
  then show ?thesis by (simp add: push_bit_eq_mult)
qed

lemma next_kick_loop_keeps_current:
  assumes "length cnt = TIMEBINS" and "T < TIMEBASE" and "t = T"
  shows "next_kick_loop cnt T n t = Some t"
  using assms
proof (induction cnt T n t rule: next_kick_loop.induct)
  case (1 cnt T n t)
  show ?case
  proof (cases "n < TIMEBINS")
    case True
    with "1.prems" have g: "array_get cnt (int n) = Some (cnt ! n)"
      by (simp add: array_get_def)
    show ?thesis
    proof (cases "cnt ! n = 0")
      case z: True
      have "next_kick_loop cnt T (n + 1) t = Some t"
        using True g z "1.prems" by (intro "1.IH"(1)) auto
      then show ?thesis using True g z by (subst next_kick_loop.simps) simp
    next
      case nz: False
      have c: "\<not> ((T div push_bit n 1) * push_bit n 1 + push_bit n 1 < t)"
        using next_candidate_later [OF True "1.prems"(2)] "1.prems"(3) by simp
      have "next_kick_loop cnt T (n + 1)
              (if (T div push_bit n 1) * push_bit n 1 + push_bit n 1 < t
               then (T div push_bit n 1) * push_bit n 1 + push_bit n 1 else t)
            = Some (if (T div push_bit n 1) * push_bit n 1 + push_bit n 1 < t
               then (T div push_bit n 1) * push_bit n 1 + push_bit n 1 else t)"
        using True g nz "1.prems" c by (intro "1.IH"(2)) auto
      then show ?thesis using True g nz c by (subst next_kick_loop.simps) (simp add: Let_def)
    qed
  next
    case False
    then show ?thesis by (subst next_kick_loop.simps) simp
  qed
qed

lemma find_next_kick_bin0_without_snapshot_bits:
  assumes len: "length cnt = TIMEBINS" and c0: "cnt ! 0 \<noteq> 0" and T: "Ti_Current < TIMEBASE"
  shows "find_next_kick cnt Ti_Current = Some Ti_Current"
proof -
  have tb: "TIMEBASE - 1 = mask 29"
    by (simp add: TIMEBASE_def TIMEBINS_def mask_eq_decr_exp)
  from T have "Ti_Current < 2 ^ 29" by (simp add: TIMEBASE_def TIMEBINS_def)
  then have m: "Ti_Current AND mask 29 = Ti_Current" by (rule less_mask_eq)
  have "Ti_Current AND NOT (mask 29) = (Ti_Current AND mask 29) AND NOT (mask 29)"
    by (simp only: m)
  also have "\<dots> = 0" by (simp add: and.assoc)
  finally have s: "Ti_Current AND NOT (mask 29) = 0" .
  have g: "array_get cnt 0 = Some (cnt ! 0)"
    using len by (simp add: array_get_def TIMEBINS_def)
  have l: "next_kick_loop cnt Ti_Current (Suc 0) Ti_Current = Some Ti_Current"
    by (rule next_kick_loop_keeps_current [OF len T refl])
  show ?thesis using c0 by (simp add: find_next_kick_def g tb m s l)
qed

section \<open>Facts about the concrete inputs\<close>

lemma dloga_fast_particle: "get_timestep_dloga unit_env fast_particle = 1 / 10 ^ 16"
proof -
  have a: "sqrt (1000000000000000000000000000000000000000000000000000000000000::real) = 10 ^ 30"
    by (rule real_sqrt_unique) simp_all
  have b: "sqrt (1 / 100000000000000000000000000000000 :: real) = 1 / 10 ^ 16"
    by (rule real_sqrt_unique) (simp_all add: power2_eq_square)
  show ?thesis
    by (simp add: get_timestep_dloga_def unit_env_def fast_particle_def halo_particle_def a b)
qed

lemma round_1: "round_down_power_of_two 1 = 1"
  by (simp add: round_down_power_of_two_def floor_log2.simps)

lemma round_64: "round_down_power_of_two 64 = 64"
  by (simp add: round_down_power_of_two_def floor_log2.simps)

lemma bin_64: "get_timestep_bin 64 = 6"
  using get_timestep_bin_exp [of 6] by simp

lemma rebuilt_state_value:
  "rebuild_activelist two_halo_state = Some rebuilt_state"
  "ActiveParticle rebuilt_state = [0, 1]"
  "TimeBinActive rebuilt_state = bins_0_to_4_active"
  "P rebuilt_state = P two_halo_state"
  "PM_Ti_start rebuilt_state = 0"
  "PM_Ti_step rebuilt_state = 1024"
  by (simp_all add: rebuilt_state_def rebuild_activelist_def two_halo_state_def
      halo_particle_def bins_0_to_4_active_def TIMEBINS_def array_get_def array_add_def
      array2_add_def nth_append)

lemma sum_list_update_int:
  fixes xs :: "int list"
  shows "k < length xs \<Longrightarrow> sum_list (xs[k := x]) = sum_list xs + x - xs ! k"
proof (induction xs arbitrary: k)
  case Nil
  then show ?case by simp
next
  case (Cons y ys)
  then show ?case by (cases k) simp_all
qed

lemma rebuilt_counts:
  "TimeBinCount rebuilt_state = (replicate 29 0)[3 := 1, 4 := 1]"
  "TimeBinCountType rebuilt_state
     = (replicate 6 (replicate 29 0))[1 := (replicate 29 0)[3 := 1, 4 := 1]]"
  by (simp_all add: rebuilt_state_def rebuild_activelist_def two_halo_state_def
      halo_particle_def bins_0_to_4_active_def TIMEBINS_def array_get_def array_add_def
      array2_add_def nth_append)

lemma guard_example_value:
  "guard_example = Some (the guard_example)"
  "TimeBin (ks_particle (the guard_example)) = 4"
  by (simp_all add: guard_example_def advance_particle_def round_64 bin_64
      upward_guard_def upward_loop.simps array_get_def  TIMEBINS_def
      dti_of_bin_def move_between_bins_def array_add_def array2_add_def
      halo_particle_def get_kick_ti_def nth_append
     rebuilt_state_def rebuild_activelist_def two_halo_state_def bins_0_to_4_active_def)

lemma round_4: "round_down_power_of_two 4 = 4"
  by (simp add: round_down_power_of_two_def floor_log2.simps)

lemma bin_4: "get_timestep_bin 4 = 2"
  using get_timestep_bin_exp [of 2] by simp


lemma shrink_example_value:
  "shrink_example = Some (the shrink_example)"
  "TimeBin (ks_particle (the shrink_example)) = 2"
  by (simp_all add: shrink_example_def advance_particle_def round_4 bin_4
      upward_guard_def upward_loop.simps array_get_def  TIMEBINS_def
      dti_of_bin_def move_between_bins_def array_add_def array2_add_def
      halo_particle_def get_kick_ti_def nth_append
     rebuilt_state_def rebuild_activelist_def two_halo_state_def bins_0_to_4_active_def)

lemma advanced_state_value:
  "advance_loop equal_step_env False 64 1024 (ActiveParticle rebuilt_state) (rebuilt_state, 0)
     = Some advanced_state"
  "map TimeBin (P (fst advanced_state)) = [4, 4]"
  "snd advanced_state = 0"
  by (simp_all add: advanced_state_def equal_step_env_def unit_env_def
      advance_particle_def round_64 bin_64
      upward_guard_def upward_loop.simps array_get_def  TIMEBINS_def
      dti_of_bin_def move_between_bins_def array_add_def array2_add_def
      halo_particle_def get_kick_ti_def nth_append
     rebuilt_state_def rebuild_activelist_def two_halo_state_def bins_0_to_4_active_def)

lemma half_kicked_state_value:
  "apply_half_kick unit_env rebuilt_state = Some half_kicked_state"
  by (simp add: half_kicked_state_def apply_half_kick_def rebuilt_state_value
      two_halo_state_def array_get_def dti_of_bin_def halo_particle_def)

section \<open>Claims\<close>

text \<open>
  C8, as stated: for every bin index \<open>b\<close> with \<open>0 \<le> b \<le> TIMEBINS-1\<close>,
  \<open>get_timestep_bin(2^b) == b\<close>, including \<open>get_timestep_bin(1) == 0\<close>.  This fails at
  \<open>b = 0\<close>: the function has an explicit branch that returns \<open>-1\<close> for a step of one
  tick.
\<close>

theorem get_timestep_bin_one_counterexample:
  "\<not> (get_timestep_bin (2 ^ 0) = 0)"
  by (simp add: get_timestep_bin_def)

text \<open>
  C8, amended: for every bin index \<open>b\<close> with \<open>1 \<le> b \<le> TIMEBINS-1\<close> (indeed for
  every \<open>b\<close> from 1 to 31) \<open>get_timestep_bin(2^b) == b\<close>, and
  \<open>get_timestep_bin(0) == 0\<close>; for \<open>b = 0\<close> the result \<open>get_timestep_bin(1)\<close> is \<open>-1\<close>.
\<close>

theorem get_timestep_bin_pow2:
  "(1 \<le> b \<and> b < 32 \<longrightarrow> get_timestep_bin (2 ^ b) = int b)
   \<and> get_timestep_bin 0 = 0
   \<and> get_timestep_bin (2 ^ 0) = - 1"
  by (simp add: get_timestep_bin_exp) (simp add: get_timestep_bin_def)

theorem get_timestep_bin_pow2_witness:
  "(1::nat) \<le> 28 \<and> (28::nat) < 32 \<and> 28 \<le> TIMEBINS - 1
   \<and> get_timestep_bin (2 ^ 28) = 28"
  using get_timestep_bin_pow2 [of 28] by (simp add: TIMEBINS_def)

text \<open>
  C10: for every particle whose bin lies in \<open>[0, 30]\<close> (which covers the bins
  \<open>[0, TIMEBINS-1]\<close> of the data model), \<open>get_short_kick_time\<close> returns
  \<open>get_kick_ti(Ti_begstep, 2^TimeBin)\<close>; this is the midpoint
  \<open>Ti_begstep + 2^(TimeBin-1)\<close> of the current step when \<open>TimeBin \<ge> 1\<close>, and
  \<open>Ti_begstep\<close> itself when \<open>TimeBin = 0\<close>.
\<close>

theorem get_short_kick_time_midpoint:
  assumes "0 \<le> TimeBin p" and "TimeBin p \<le> 30"
  shows "get_short_kick_time p = Some (get_kick_ti (Ti_begstep p) (2 ^ nat (TimeBin p)))
    \<and> (1 \<le> TimeBin p \<longrightarrow>
          get_short_kick_time p = Some (Ti_begstep p + 2 ^ (nat (TimeBin p) - 1)))
    \<and> (TimeBin p = 0 \<longrightarrow> get_short_kick_time p = Some (Ti_begstep p))"
proof (cases "TimeBin p = 0")
  case True
  then show ?thesis
    by (simp add: get_short_kick_time_def dti_of_bin_def get_kick_ti_zero get_kick_ti_one)
next
  case False
  with assms have k: "1 \<le> nat (TimeBin p)" "nat (TimeBin p) < 31" by auto
  have "get_short_kick_time p = Some (get_kick_ti (Ti_begstep p) (2 ^ nat (TimeBin p)))"
    using False assms by (simp add: get_short_kick_time_def dti_of_bin_def push_bit_eq_mult)
  then show ?thesis using False get_kick_ti_pow2 [OF k] by simp
qed

theorem get_short_kick_time_midpoint_witness:
  "0 \<le> TimeBin halo_particle \<and> TimeBin halo_particle \<le> 30
   \<and> 1 \<le> TimeBin halo_particle
   \<and> get_short_kick_time halo_particle = Some 12
   \<and> TimeBin (halo_particle\<lparr>TimeBin := 0\<rparr>) = 0
   \<and> get_short_kick_time (halo_particle\<lparr>TimeBin := 0\<rparr>) = Some 8"
  using get_short_kick_time_midpoint [of halo_particle]
    get_short_kick_time_midpoint [of "halo_particle\<lparr>TimeBin := 0\<rparr>"]
  by (simp add: halo_particle_def get_kick_ti_def signed_divide_int_def)

text \<open>
  C6, as stated: for every particle and every \<open>dti_max \<ge> 1\<close>, \<open>get_timestep_ti\<close>
  returns a step \<open>dti\<close> with \<open>1 \<le> dti \<le> dti_max\<close>.  The lower bound fails: for the
  particle with \<open>GravAccel = (1e30, 0, 0)\<close> the step \<open>dloga = 1e-16\<close> is less than
  one tick, \<open>dti_from_dloga\<close> gives 0, and the function returns 0 (after its
  "Bad timestep" message) instead of raising it to 1.
\<close>

theorem get_timestep_ti_zero_counterexample:
  "\<not> (1 \<le> get_timestep_ti unit_env fast_particle 1024
      \<and> get_timestep_ti unit_env fast_particle 1024 \<le> 1024)"
proof -
  have "\<lfloor>(1 / 10 ^ 16 :: real) * 2 ^ 29\<rfloor> = 0"
    by (simp add: floor_eq_iff)
  then have "get_timestep_ti unit_env fast_particle 1024 = 0"
    by (simp add: get_timestep_ti_def dloga_fast_particle) (simp add: unit_env_def)
  then show ?thesis by simp
qed

text \<open>
  C6, amended: for every particle and every \<open>dti_max \<ge> 1\<close>, \<open>get_timestep_ti\<close>
  returns a step \<open>dti\<close> with \<open>0 \<le> dti \<le> dti_max\<close>; whenever \<open>TreeGravOn\<close> is false
  it returns \<open>dti_max\<close> exactly; and the result is 0 exactly when \<open>TreeGravOn\<close> is
  true and \<open>dti_from_dloga\<close> converts the particle's step (raised to
  \<open>MinSizeTimestep\<close>) to 0 ticks.
\<close>

theorem get_timestep_ti_range:
  assumes "1 \<le> dti_max"
  shows "get_timestep_ti env p dti_max \<le> dti_max
    \<and> (\<not> TreeGravOn env \<longrightarrow> get_timestep_ti env p dti_max = dti_max)
    \<and> (get_timestep_ti env p dti_max = 0 \<longleftrightarrow>
         TreeGravOn env
         \<and> dti_from_dloga env (max (get_timestep_dloga env p) (MinSizeTimestep env)) = 0)"
proof -
  have nz: "dti_max \<noteq> 0" using assms by auto
  have m: "(if get_timestep_dloga env p < MinSizeTimestep env then MinSizeTimestep env
            else get_timestep_dloga env p)
           = max (get_timestep_dloga env p) (MinSizeTimestep env)"
    by (simp add: max_def)
  show ?thesis using nz
    by (auto simp add: get_timestep_ti_def Let_def m)
qed

theorem get_timestep_ti_range_witness:
  "(1::tick) \<le> 1024
   \<and> get_timestep_ti (unit_env\<lparr>TreeGravOn := False\<rparr>) fast_particle 1024 = 1024
   \<and> get_timestep_ti unit_env fast_particle 1024 \<le> 1024"
  using get_timestep_ti_range [of 1024 "unit_env\<lparr>TreeGravOn := False\<rparr>" fast_particle]
    get_timestep_ti_range [of 1024 unit_env fast_particle]
  by simp




text \<open>
  C2: \<open>find_next_kick\<close> is claimed to mask the snapshot bits of \<open>Ti_Current\<close> first
  and to seed the candidate with the masked value, so that a populated bin 0 makes
  the local result equal to \<open>Ti_Current\<close> whatever the snapshot bits are.  The code
  seeds the candidate with the unmasked \<open>Ti_Current\<close> and adds the snapshot bits
  once more at the end: at \<open>Ti_Current = TIMEBASE\<close> (snapshot 1, offset 0) with only
  bin 0 populated it yields \<open>2 * TIMEBASE\<close>, not \<open>TIMEBASE\<close>.
\<close>

theorem find_next_kick_adds_snapshot_bits_twice:
  "find_next_kick restart_counts TIMEBASE = Some (2 * TIMEBASE)
   \<and> find_next_kick restart_counts TIMEBASE \<noteq> Some TIMEBASE"
proof -
  have l: "next_kick_loop restart_counts (TIMEBASE AND (TIMEBASE - 1)) (Suc 0) TIMEBASE
             = Some TIMEBASE"
    by (rule next_kick_loop_empty) (simp add: restart_counts_get)
  have s: "TIMEBASE AND NOT (TIMEBASE - 1) = TIMEBASE"
    by (simp add: TIMEBASE_def TIMEBINS_def)
  have n: "2 * TIMEBASE \<noteq> TIMEBASE"
    by (simp add: TIMEBASE_def TIMEBINS_def)
  show ?thesis using n
    by (simp add: find_next_kick_def restart_counts_get l s)
qed



text \<open>
  C4: in the loop body of \<open>advance_and_find_timesteps\<close>, a candidate bin that does
  not exceed the old bin is taken as it is; a candidate bin above the old bin is
  walked downward until \<open>TimeBinActive[b]\<close> is true or \<open>b\<close> is the old bin, so that
  the new bin is the highest bin between the old bin and the candidate that is
  active or the old bin itself.  A particle therefore never moves to a higher bin
  that is inactive.  The instance that follows the theorem is the scenario of the
  specification: bin 3 asks for bin 6 while only the bins 0 to 4 are active, and the
  particle ends in bin 4.
\<close>

theorem advance_particle_upward_guard:
  assumes "advance_particle env act half dti0 cnt cntT p = Some r"
  shows "let b_cand = get_timestep_bin (round_down_power_of_two dti0);
             b_old = TimeBin p;
             b = TimeBin (ks_particle r)
         in (b_cand \<le> b_old \<longrightarrow> b = b_cand)
          \<and> (b_cand > b_old \<longrightarrow>
               b_old \<le> b \<and> b \<le> b_cand
               \<and> (b = b_old \<or> act ! nat b \<noteq> 0)
               \<and> (\<forall>b'. b < b' \<and> b' \<le> b_cand \<longrightarrow> act ! nat b' = 0))
          \<and> (b > b_old \<longrightarrow> array_get act b \<noteq> Some 0 \<and> array_get act b \<noteq> None)"
proof -
  let ?d = "round_down_power_of_two dti0"
  let ?cand = "get_timestep_bin ?d"
  let ?b = "TimeBin (ks_particle r)"
  note g = advance_particle_new_bin [OF assms]
  show ?thesis
  proof (cases "?cand > TimeBin p")
    case True
    with upward_guard_Some [OF g] have "upward_loop act (TimeBin p) ?cand = Some ?b" by simp
    from upward_loop_Some [OF this True] True show ?thesis
      by (auto simp: Let_def array_get_def)
  next
    case False
    with upward_guard_Some [OF g] show ?thesis by (auto simp: Let_def)
  qed
qed

theorem advance_particle_upward_guard_witness:
  "advance_particle unit_env (TimeBinActive rebuilt_state) False 64
       (TimeBinCount rebuilt_state) (TimeBinCountType rebuilt_state) halo_particle
     = Some (the guard_example)
   \<and> TimeBin halo_particle = 3
   \<and> get_timestep_bin (round_down_power_of_two 64) = 6
   \<and> TimeBin (ks_particle (the guard_example)) = 4
   \<and> array_get (TimeBinActive rebuilt_state) 4 \<noteq> Some 0
   \<and> advance_particle unit_env (TimeBinActive rebuilt_state) False 4
       (TimeBinCount rebuilt_state) (TimeBinCountType rebuilt_state) halo_particle
     = Some (the shrink_example)
   \<and> get_timestep_bin (round_down_power_of_two 4) = 2
   \<and> TimeBin (ks_particle (the shrink_example)) = 2"
proof -
  have h: "advance_particle unit_env (TimeBinActive rebuilt_state) False 64
       (TimeBinCount rebuilt_state) (TimeBinCountType rebuilt_state) halo_particle
     = Some (the guard_example)"
    using guard_example_value(1) by (simp add: guard_example_def)
  have k: "advance_particle unit_env (TimeBinActive rebuilt_state) False 4
       (TimeBinCount rebuilt_state) (TimeBinCountType rebuilt_state) halo_particle
     = Some (the shrink_example)"
    using shrink_example_value(1) by (simp add: shrink_example_def)
  show ?thesis
    using h k advance_particle_upward_guard [OF h] advance_particle_upward_guard [OF k]
      guard_example_value(2)
    by (simp add: halo_particle_def round_64 bin_64 round_4 bin_4 Let_def)
qed

text \<open>
  C5: bin accounting.  \<open>rebuild_activelist\<close> establishes
  \<open>\<Sum>b TimeBinCount[b] = NumPart\<close> and, for every bin \<open>b\<close>,
  \<open>\<Sum>type TimeBinCountType[type][b] = TimeBinCount[b]\<close> (lemma
  \<open>rebuild_activelist_accounting\<close>), and the bin migration of
  \<open>advance_and_find_timesteps\<close> preserves both equalities when the bin of the rounded
  step is one of the bins \<open>[0, TIMEBINS-1]\<close> (lemmas \<open>advance_particle_defined\<close> and
  \<open>advance_particle_accounting\<close>).  It does not when the rounded step is one tick: then
  \<open>get_timestep_bin\<close> returns \<open>-1\<close>, the loop body counts the bad step and goes on,
  decrements the counters of the old bin and increments \<open>TimeBinCount[-1]\<close> and
  \<open>TimeBinCountType[Type][-1]\<close>, outside both arrays.  For the two-particle state
  built by \<open>rebuild_activelist\<close> and its halo particle of bin 3: the counters sum to
  \<open>NumPart\<close> before the step and to \<open>NumPart - 1\<close> after the decrement, both
  increments are out of bounds, and so the loop body and the whole loop are undefined.
\<close>

theorem bad_step_breaks_bin_accounting:
  "rebuild_activelist two_halo_state = Some rebuilt_state
   \<and> P rebuilt_state ! 0 = halo_particle
   \<and> length (TimeBinCount rebuilt_state) = TIMEBINS
   \<and> sum_list (TimeBinCount rebuilt_state) = int (NumPart rebuilt_state)
   \<and> round_down_power_of_two 1 = 1
   \<and> get_timestep_bin (round_down_power_of_two 1) = - 1
   \<and> array_add (TimeBinCount rebuilt_state) (TimeBin halo_particle) (- 1) = Some bad_step_counts
   \<and> length bad_step_counts = TIMEBINS
   \<and> sum_list bad_step_counts = int (NumPart rebuilt_state) - 1
   \<and> array_add bad_step_counts (- 1) 1 = None
   \<and> array2_add (TimeBinCountType rebuilt_state) (Type halo_particle) (TimeBin halo_particle) (- 1)
       = Some bad_step_type_counts
   \<and> array2_add bad_step_type_counts (Type halo_particle) (- 1) 1 = None
   \<and> advance_particle unit_env (TimeBinActive rebuilt_state) False 1
        (TimeBinCount rebuilt_state) (TimeBinCountType rebuilt_state) halo_particle = None
   \<and> advance_loop equal_step_env False 1 1024 (ActiveParticle rebuilt_state) (rebuilt_state, 0)
       = None"
proof -
  have n: "NumPart rebuilt_state = 2" "P rebuilt_state ! 0 = halo_particle"
    by (simp_all add: NumPart_def rebuilt_state_value(4) two_halo_state_def)
  have s: "sum_list (TimeBinCount rebuilt_state) = 2" "length (TimeBinCount rebuilt_state) = TIMEBINS"
    by (simp_all add: rebuilt_counts sum_list_update_int sum_list_replicate TIMEBINS_def)
  have a: "array_add (TimeBinCount rebuilt_state) (TimeBin halo_particle) (- 1)
             = Some bad_step_counts"
    by (simp add: bad_step_counts_def array_add_def rebuilt_counts halo_particle_def)
  have c: "bad_step_counts = (replicate 29 0)[3 := 0, 4 := 1]"
    by (simp add: bad_step_counts_def array_add_def rebuilt_counts halo_particle_def
        list_update_swap [of 3 4])
  have s': "sum_list bad_step_counts = 1" "length bad_step_counts = TIMEBINS"
    by (simp_all add: c sum_list_update_int sum_list_replicate TIMEBINS_def)
  have o: "array_add bad_step_counts (- 1) 1 = None"
    by (simp add: array_add_def)
  have t: "array2_add (TimeBinCountType rebuilt_state) (Type halo_particle)
             (TimeBin halo_particle) (- 1) = Some bad_step_type_counts"
    by (simp add: bad_step_type_counts_def array2_add_def array_get_def array_add_def
        rebuilt_counts halo_particle_def)
  have t': "array2_add bad_step_type_counts (Type halo_particle) (- 1) 1 = None"
    by (simp add: array2_add_def array_add_def split: bind_splits)
  have u: "advance_particle unit_env (TimeBinActive rebuilt_state) False 1
        (TimeBinCount rebuilt_state) (TimeBinCountType rebuilt_state) halo_particle = None"
    by (rule advance_particle_one_tick_undefined) (simp_all add: round_1 halo_particle_def)
  have l: "advance_loop equal_step_env False 1 1024 (ActiveParticle rebuilt_state)
        (rebuilt_state, 0) = None"
    by (simp add: rebuilt_state_value(2,4) two_halo_state_def array_get_def equal_step_env_def
        advance_particle_one_tick_undefined round_1 halo_particle_def)
  show ?thesis using n s a s' o t t' u l rebuilt_state_value(1)
    by (simp add: round_1 get_timestep_bin_def)
qed

text \<open>
  C7: \<open>apply_half_kick\<close> leaves \<open>Ti_begstep\<close> and \<open>TimeBin\<close> of every particle and
  the PM super-step \<open>(PM_start, PM_step)\<close> unchanged; indeed it changes nothing but
  the particle table.  When the entries of \<open>ActiveParticle\<close> are distinct, every
  particle ends as follows: an active particle has received the short-range kick
  over \<open>[Ti_begstep, get_kick_ti(Ti_begstep, 2^TimeBin))\<close>, an inactive one has not,
  and every particle has then received the long-range kick over
  \<open>[PM_start, get_kick_ti(PM_start, PM_step))\<close>.  The function is defined whenever the
  active indices are in range and the bins of the active particles lie in \<open>[0, 30]\<close>.
\<close>

theorem apply_half_kick_effect:
  "(apply_half_kick env st = Some st' \<longrightarrow>
      map Ti_begstep (P st') = map Ti_begstep (P st)
      \<and> map TimeBin (P st') = map TimeBin (P st)
      \<and> PM_Ti_start st' = PM_Ti_start st \<and> PM_Ti_step st' = PM_Ti_step st
      \<and> st' = st\<lparr>P := P st'\<rparr>)
   \<and> (apply_half_kick env st = Some st' \<and> distinct (ActiveParticle st) \<and> j < NumPart st \<longrightarrow>
        P st' ! j = pm_half_kick env st
          (if int j \<in> set (ActiveParticle st) then half_step_kick env (P st ! j) else P st ! j))
   \<and> (active_in_range st \<longrightarrow> apply_half_kick env st \<noteq> None)"
proof (intro conjI impI)
  assume a: "apply_half_kick env st = Some st'"
  then obtain ps where l: "half_kick_loop env (ActiveParticle st) (P st) = Some ps"
    and st': "st' = st\<lparr>P := do_the_long_range_kick env (PM_Ti_start st)
                (get_kick_ti (PM_Ti_start st) (PM_Ti_step st)) ps\<rparr>"
    by (auto simp: apply_half_kick_def Let_def split: bind_splits)
  from half_kick_loop_frame [OF l]
  show "map Ti_begstep (P st') = map Ti_begstep (P st)"
    and "map TimeBin (P st') = map TimeBin (P st)"
    by (simp_all add: st' do_the_long_range_kick_frame)
  show "PM_Ti_start st' = PM_Ti_start st" and "PM_Ti_step st' = PM_Ti_step st"
    and "st' = st\<lparr>P := P st'\<rparr>"
    by (simp_all add: st')
next
  assume a: "apply_half_kick env st = Some st' \<and> distinct (ActiveParticle st) \<and> j < NumPart st"
  then obtain ps where l: "half_kick_loop env (ActiveParticle st) (P st) = Some ps"
    and st': "st' = st\<lparr>P := do_the_long_range_kick env (PM_Ti_start st)
                (get_kick_ti (PM_Ti_start st) (PM_Ti_step st)) ps\<rparr>"
    by (auto simp: apply_half_kick_def Let_def split: bind_splits)
  from a have d: "distinct (ActiveParticle st)" and j: "j < length (P st)"
    by (simp_all add: NumPart_def)
  from half_kick_loop_frame [OF l] j have j': "j < length ps" by simp
  from half_kick_loop_kicks [OF l d j] j'
  show "P st' ! j = pm_half_kick env st
          (if int j \<in> set (ActiveParticle st) then half_step_kick env (P st ! j) else P st ! j)"
    by (simp add: st' do_the_long_range_kick_def Let_def pm_half_kick_def)
next
  assume "active_in_range st"
  then have "\<forall>i\<in>set (ActiveParticle st). 0 \<le> i \<and> i < int (length (P st))
             \<and> 0 \<le> TimeBin (P st ! nat i) \<and> TimeBin (P st ! nat i) \<le> 30"
    by (simp add: active_in_range_def list_all_iff NumPart_def)
  from half_kick_loop_defined [OF this, of env]
  show "apply_half_kick env st \<noteq> None"
    by (auto simp: apply_half_kick_def Let_def)
qed


theorem apply_half_kick_effect_witness:
  "apply_half_kick unit_env rebuilt_state = Some half_kicked_state
   \<and> distinct (ActiveParticle rebuilt_state)
   \<and> (0::nat) < NumPart rebuilt_state
   \<and> active_in_range rebuilt_state
   \<and> map Ti_begstep (P half_kicked_state) = [8, 0]
   \<and> map TimeBin (P half_kicked_state) = [3, 4]
   \<and> PM_Ti_start half_kicked_state = 0 \<and> PM_Ti_step half_kicked_state = 1024
   \<and> P half_kicked_state ! 0
       = pm_half_kick unit_env rebuilt_state (half_step_kick unit_env halo_particle)"
proof -
  have h: "apply_half_kick unit_env rebuilt_state = Some half_kicked_state"
    by (rule half_kicked_state_value)
  have d: "distinct (ActiveParticle rebuilt_state)" "(0::nat) < NumPart rebuilt_state"
    "active_in_range rebuilt_state"
    by (simp_all add: active_in_range_def NumPart_def rebuilt_state_value two_halo_state_def
        halo_particle_def)
  note T = apply_half_kick_effect [where env = unit_env and st = rebuilt_state
      and st' = half_kicked_state and j = 0]
  show ?thesis
    using h d T
    by (simp add: rebuilt_state_value(2,4,5,6) two_halo_state_def halo_particle_def)
qed

end
